theory Spec2Isabelle
  imports Complex_Main
begin

section \<open>Constants of synthesis\_watermelon.py\<close>

definition WIDTH :: int where "WIDTH = 600"
definition HEIGHT :: int where "HEIGHT = 800"
definition BORDER_THICKNESS :: int where "BORDER_THICKNESS = 10"
definition FPS :: int where "FPS = 60"
definition MAX_LEVEL :: int where "MAX_LEVEL = 10"
definition COOLDOWN_TIME :: int where "COOLDOWN_TIME = 1"

text \<open>\<^verbatim>\<open>WAITING, MOVING, STOPPED = 0, 1, 2\<close>\<close>

datatype wm_state = WAITING | MOVING | STOPPED

section \<open>Python floats\<close>

text \<open>
  A coordinate is a Python float: a finite number or one of the three non-finite values.
\<close>

datatype pyfloat = Fin real | PInf | NInf | NaN

text \<open>
  What an operation on two finite floats gives (a rounded result, or an infinity when it
  overflows) is the platform's business. It is a parameter of everything below, and
  nothing is assumed of it: \<open>fl_add a b\<close> is the float \<^verbatim>\<open>a + b\<close>, and so on;
  \<open>nine_tenths\<close> is the float that the literal \<^verbatim>\<open>0.9\<close> denotes.
\<close>

record float_ops =
  fl_add :: "real \<Rightarrow> real \<Rightarrow> pyfloat"
  fl_sub :: "real \<Rightarrow> real \<Rightarrow> pyfloat"
  fl_mul :: "real \<Rightarrow> real \<Rightarrow> pyfloat"
  fl_div :: "real \<Rightarrow> real \<Rightarrow> pyfloat"
  fl_hypot :: "real \<Rightarrow> real \<Rightarrow> pyfloat"
  nine_tenths :: real

text \<open>\<^verbatim>\<open>math.isfinite\<close>\<close>

fun isfinite :: "pyfloat \<Rightarrow> bool" where
  "isfinite (Fin _) = True"
| "isfinite _ = False"

text \<open>The float comparisons \<^verbatim>\<open>a < b\<close> and \<^verbatim>\<open>a <= b\<close>: exact, and false as soon as one
  side is NaN.\<close>

fun fless :: "pyfloat \<Rightarrow> pyfloat \<Rightarrow> bool" where
  "fless (Fin a) (Fin b) = (a < b)"
| "fless NaN _ = False"
| "fless _ NaN = False"
| "fless PInf _ = False"
| "fless _ NInf = False"
| "fless NInf _ = True"
| "fless _ PInf = True"

fun fle :: "pyfloat \<Rightarrow> pyfloat \<Rightarrow> bool" where
  "fle (Fin a) (Fin b) = (a \<le> b)"
| "fle NaN _ = False"
| "fle _ NaN = False"
| "fle NInf _ = True"
| "fle _ PInf = True"
| "fle PInf _ = False"
| "fle _ NInf = False"

text \<open>Addition, subtraction, halving and \<^verbatim>\<open>math.hypot\<close>: the platform's result on finite
  operands, the IEEE 754 rules on the others (for \<open>hypot\<close> an infinite argument wins over
  NaN).\<close>

fun fadd :: "float_ops \<Rightarrow> pyfloat \<Rightarrow> pyfloat \<Rightarrow> pyfloat" where
  "fadd fp (Fin a) (Fin b) = fl_add fp a b"
| "fadd fp NaN _ = NaN"
| "fadd fp _ NaN = NaN"
| "fadd fp PInf NInf = NaN"
| "fadd fp NInf PInf = NaN"
| "fadd fp PInf _ = PInf"
| "fadd fp NInf _ = NInf"
| "fadd fp _ PInf = PInf"
| "fadd fp _ NInf = NInf"

fun fsub :: "float_ops \<Rightarrow> pyfloat \<Rightarrow> pyfloat \<Rightarrow> pyfloat" where
  "fsub fp (Fin a) (Fin b) = fl_sub fp a b"
| "fsub fp NaN _ = NaN"
| "fsub fp _ NaN = NaN"
| "fsub fp PInf PInf = NaN"
| "fsub fp NInf NInf = NaN"
| "fsub fp PInf _ = PInf"
| "fsub fp NInf _ = NInf"
| "fsub fp _ PInf = NInf"
| "fsub fp _ NInf = PInf"

text \<open>\<^verbatim>\<open>x / 2\<close>\<close>

fun fhalf :: "float_ops \<Rightarrow> pyfloat \<Rightarrow> pyfloat" where
  "fhalf fp (Fin a) = fl_div fp a 2"
| "fhalf fp x = x"

fun hypot :: "float_ops \<Rightarrow> pyfloat \<Rightarrow> pyfloat \<Rightarrow> pyfloat" where
  "hypot fp (Fin a) (Fin b) = fl_hypot fp a b"
| "hypot fp PInf _ = PInf"
| "hypot fp NInf _ = PInf"
| "hypot fp _ PInf = PInf"
| "hypot fp _ NInf = PInf"
| "hypot fp _ _ = NaN"

text \<open>
  The builtins \<^verbatim>\<open>min(a, b)\<close> and \<^verbatim>\<open>max(a, b)\<close> keep the first argument unless the
  second compares strictly smaller (larger).
\<close>

definition py_min :: "pyfloat \<Rightarrow> pyfloat \<Rightarrow> pyfloat" where
  "py_min a b = (if fless b a then b else a)"

definition py_max :: "pyfloat \<Rightarrow> pyfloat \<Rightarrow> pyfloat" where
  "py_max a b = (if fless a b then b else a)"

definition of_py_int :: "int \<Rightarrow> pyfloat" where
  "of_py_int i = Fin (real_of_int i)"

type_synonym vec = "pyfloat \<times> pyfloat"

section \<open>Watermelon\<close>

text \<open>
  A pymunk body, reduced to what the game reads and writes: its kind, mass, moment and
  position. Pymunk's \<^verbatim>\<open>Body(body_type=KINEMATIC)\<close> has mass and moment 0;
  \<^verbatim>\<open>moment_for_circle(m, 0, r)\<close> is \<open>m * r\<^sup>2 / 2\<close>. The circle shape of a piece is attached
  to the piece's current body and registered with it, so it has no field of its own.
\<close>

datatype body_kind = DYNAMIC | KINEMATIC | STATIC

record body =
  body_type :: body_kind
  mass :: real
  moment :: real
  position :: vec

record watermelon =
  level :: int
  radius :: int
  state :: wm_state
  merged :: bool
  body :: body

definition moment_for_circle :: "real \<Rightarrow> int \<Rightarrow> real" where
  "moment_for_circle m r = m * (real_of_int r * real_of_int r) / 2"

text \<open>\<^verbatim>\<open>Watermelon._calculate_radius\<close>, on the level already stored.\<close>

definition calculate_radius :: "int \<Rightarrow> int" where
  "calculate_radius lvl = 45 + (lvl - 1) * 8"

text \<open>\<^verbatim>\<open>Watermelon._init_physics\<close>\<close>

definition init_physics :: "wm_state \<Rightarrow> int \<Rightarrow> vec \<Rightarrow> body" where
  "init_physics st r pos =
     (if st = WAITING
      then \<lparr>body_type = KINEMATIC, mass = 0, moment = 0, position = pos\<rparr>
      else \<lparr>body_type = DYNAMIC, mass = 1, moment = moment_for_circle 1 r, position = pos\<rparr>)"

text \<open>\<^verbatim>\<open>Watermelon.__init__(pos, level, state)\<close>\<close>

definition Watermelon_init :: "vec \<Rightarrow> int \<Rightarrow> wm_state \<Rightarrow> watermelon" where
  "Watermelon_init pos lvl st =
     (let l = min lvl MAX_LEVEL; r = calculate_radius l
      in \<lparr>level = l, radius = r, state = st, merged = False, body = init_physics st r pos\<rparr>)"

text \<open>\<^verbatim>\<open>Watermelon.convert_to_dynamic\<close>\<close>

definition convert_to_dynamic :: "watermelon \<Rightarrow> watermelon" where
  "convert_to_dynamic wm =
     (if state wm = WAITING
      then wm\<lparr>body := \<lparr>body_type = DYNAMIC, mass = 120,
                        moment = moment_for_circle 120 (radius wm),
                        position = position (body wm)\<rparr>,
              state := MOVING\<rparr>
      else wm)"

definition set_position :: "vec \<Rightarrow> watermelon \<Rightarrow> watermelon" where
  "set_position p wm = wm\<lparr>body := (body wm)\<lparr>position := p\<rparr>\<rparr>"

text \<open>\<^verbatim>\<open>Watermelon.update\<close>\<close>

definition Watermelon_update :: "watermelon \<Rightarrow> watermelon" where
  "Watermelon_update wm =
     (let wm1 = (if \<not> isfinite (fst (position (body wm))) \<or> \<not> isfinite (snd (position (body wm)))
                 then set_position (of_py_int (WIDTH div 2), of_py_int (HEIGHT div 2)) wm
                 else wm)
      in if state wm1 = WAITING
         then (let x = py_max (of_py_int (radius wm1))
                         (py_min (fst (position (body wm1))) (of_py_int (WIDTH - radius wm1)))
               in set_position (x, of_py_int 50) wm1)
         else wm1)"

section \<open>Errors\<close>

text \<open>
  \<^verbatim>\<open>sys.exit()\<close> on a QUIT event; \<^verbatim>\<open>list.remove\<close> of an absent element raises ValueError;
  pymunk's \<^verbatim>\<open>Space.add\<close> and \<^verbatim>\<open>Space.remove\<close> assert that the body is not yet, respectively
  still, in the space.
\<close>

datatype error = SystemExit | ValueError | AssertionError

definition bind_err :: "error + 'a \<Rightarrow> ('a \<Rightarrow> error + 'b) \<Rightarrow> error + 'b" where
  "bind_err m f = (case m of Inl e \<Rightarrow> Inl e | Inr x \<Rightarrow> f x)"

text \<open>\<^verbatim>\<open>list.remove(x)\<close>\<close>

definition list_remove :: "'a \<Rightarrow> 'a list \<Rightarrow> error + 'a list" where
  "list_remove x xs = (if x \<in> set xs then Inr (remove1 x xs) else Inl ValueError)"

section \<open>Physics\<close>

text \<open>
  Pieces are Python objects compared by identity: a piece is a reference (a number) into
  a heap of \<open>watermelon\<close> values, and \<open>next_id\<close> is the next unused reference. A body
  in the space is named by the piece that owns it (\<^verbatim>\<open>body.user_data\<close>). The four static
  border segments are kept apart from the piece bodies: their bodies sit at (0, 0) for ever.
\<close>

text \<open>A static border: a pymunk \<^verbatim>\<open>Segment\<close> between two end points, with the radius that
  gives it its thickness.\<close>

record segment =
  seg_a :: "int \<times> int"
  seg_b :: "int \<times> int"
  seg_radius :: int

record physics =
  borders :: "segment list"
  space_bodies :: "nat list"
  merge_pairs :: "(nat \<times> nat) list"

text \<open>\<^verbatim>\<open>Physics._create_borders\<close>\<close>

definition create_borders :: "segment list" where
  "create_borders =
     map (\<lambda>points. \<lparr>seg_a = fst points, seg_b = snd points, seg_radius = BORDER_THICKNESS\<rparr>)
       [((0, 0), (WIDTH, 0)), ((0, HEIGHT), (WIDTH, HEIGHT)),
        ((0, 0), (0, HEIGHT)), ((WIDTH, 0), (WIDTH, HEIGHT))]"

text \<open>\<^verbatim>\<open>Physics.__init__\<close>\<close>

definition Physics_init :: physics where
  "Physics_init = \<lparr>borders = create_borders, space_bodies = [], merge_pairs = []\<rparr>"

text \<open>\<^verbatim>\<open>Physics.add\<close> and \<^verbatim>\<open>Physics.remove\<close>\<close>

definition Physics_add :: "nat \<Rightarrow> physics \<Rightarrow> error + physics" where
  "Physics_add b ph =
     (if b \<in> set (space_bodies ph) then Inl AssertionError
      else Inr (ph\<lparr>space_bodies := space_bodies ph @ [b]\<rparr>))"

definition Physics_remove :: "nat \<Rightarrow> physics \<Rightarrow> error + physics" where
  "Physics_remove b ph =
     (if b \<in> set (space_bodies ph) then Inr (ph\<lparr>space_bodies := remove1 b (space_bodies ph)\<rparr>)
      else Inl AssertionError)"

section \<open>Game\<close>

record game =
  heap :: "nat \<Rightarrow> watermelon"
  next_id :: nat
  physics :: physics
  watermelons :: "nat list"
  waiting_wm :: nat
  score :: int
  game_over :: bool
  cooldown :: pyfloat
  can_spawn :: bool

text \<open>
  The collision callback installed by \<^verbatim>\<open>Game._init_collision_handler\<close>, called by the
  engine with the two pieces whose shapes begin to touch.
\<close>

definition collision_handler :: "nat \<times> nat \<Rightarrow> game \<Rightarrow> game" where
  "collision_handler c g =
     (let wm1 = fst c; wm2 = snd c in
      if level (heap g wm1) = level (heap g wm2)
         \<and> \<not> merged (heap g wm1) \<and> \<not> merged (heap g wm2)
         \<and> state (heap g wm1) \<noteq> WAITING \<and> state (heap g wm2) \<noteq> WAITING
      then (let h1 = (heap g)(wm1 := (heap g wm1)\<lparr>merged := True\<rparr>);
                h2 = h1(wm2 := (h1 wm2)\<lparr>merged := True\<rparr>)
            in g\<lparr>heap := h2,
                 physics := (physics g)\<lparr>merge_pairs := merge_pairs (physics g) @ [(wm1, wm2)]\<rparr>\<rparr>)
      else g)"

text \<open>\<^verbatim>\<open>Game._create_waiting_wm\<close>: the new piece's reference is returned in \<open>waiting_wm\<close>
  by the two callers, which both assign it there.\<close>

definition spawn_pos :: vec where
  "spawn_pos = (of_py_int (WIDTH div 2), of_py_int 50)"

definition create_waiting_wm :: "game \<Rightarrow> nat \<times> game" where
  "create_waiting_wm g =
     (let wm = next_id g
      in (wm, g\<lparr>heap := (heap g)(wm := Watermelon_init spawn_pos 1 WAITING),
                next_id := Suc wm,
                watermelons := watermelons g @ [wm]\<rparr>))"

text \<open>\<^verbatim>\<open>Game.__init__\<close>, also run again by the restart key on the same object: every field
  is assigned anew; the heap of the model keeps the old, now unreferenced, pieces.\<close>

definition Game_init :: "game \<Rightarrow> game" where
  "Game_init g =
     (let g1 = g\<lparr>physics := Physics_init, watermelons := []\<rparr>;
          (wm, g2) = create_waiting_wm g1
      in g2\<lparr>waiting_wm := wm, score := 1, game_over := False, cooldown := Fin 0, can_spawn := True\<rparr>)"

text \<open>\<^verbatim>\<open>Game._check_collision\<close>: \<^verbatim>\<open>math.hypot(dx, dy) < (r1 + r2) * 0.9\<close>, in floats.\<close>

definition check_collision :: "float_ops \<Rightarrow> watermelon \<Rightarrow> watermelon \<Rightarrow> bool" where
  "check_collision fp wm1 wm2 =
     (let distance = hypot fp (fsub fp (fst (position (body wm1))) (fst (position (body wm2))))
                              (fsub fp (snd (position (body wm1))) (snd (position (body wm2))))
      in fless distance (fl_mul fp (real_of_int (radius wm1 + radius wm2)) (nine_tenths fp)))"

text \<open>The search loop of \<^verbatim>\<open>Game._release_wm\<close>, leaving at the first hit.\<close>

fun release_collision :: "float_ops \<Rightarrow> nat list \<Rightarrow> game \<Rightarrow> bool" where
  "release_collision fp [] g = False"
| "release_collision fp (wm # wms) g =
     (if wm \<noteq> waiting_wm g \<and> check_collision fp (heap g wm) (heap g (waiting_wm g)) then True
      else release_collision fp wms g)"

text \<open>\<^verbatim>\<open>Game._release_wm\<close>\<close>

definition release_wm :: "float_ops \<Rightarrow> game \<Rightarrow> error + game" where
  "release_wm fp g =
     (if \<not> can_spawn g \<or> state (heap g (waiting_wm g)) \<noteq> WAITING then Inr g
      else if release_collision fp (watermelons g) g then Inr (g\<lparr>game_over := True\<rparr>)
      else (let w = waiting_wm g;
                g1 = g\<lparr>heap := (heap g)(w := convert_to_dynamic (heap g w))\<rparr>
            in bind_err (Physics_add w (physics g1)) (\<lambda>ph.
                 Inr (g1\<lparr>physics := ph, can_spawn := False,
                         cooldown := of_py_int COOLDOWN_TIME\<rparr>))))"

text \<open>\<^verbatim>\<open>new_pos\<close> of \<^verbatim>\<open>Game._process_merges\<close>: \<^verbatim>\<open>((x1 + x2) / 2, (y1 + y2) / 2)\<close>, in
  floats.\<close>

definition midpoint :: "float_ops \<Rightarrow> vec \<Rightarrow> vec \<Rightarrow> vec" where
  "midpoint fp p1 p2 =
     (fhalf fp (fadd fp (fst p1) (fst p2)), fhalf fp (fadd fp (snd p1) (snd p2)))"

text \<open>The body of the loop of \<^verbatim>\<open>Game._process_merges\<close> once both pieces were found in
  \<^verbatim>\<open>self.watermelons\<close>.\<close>

definition merge_pair :: "float_ops \<Rightarrow> nat \<Rightarrow> nat \<Rightarrow> game \<Rightarrow> error + game" where
  "merge_pair fp wm1 wm2 g =
     (let new_pos = midpoint fp (position (body (heap g wm1))) (position (body (heap g wm2)));
          new_level = level (heap g wm1) + 1
      in bind_err (Physics_remove wm1 (physics g)) (\<lambda>ph1.
         bind_err (Physics_remove wm2 ph1) (\<lambda>ph2.
         bind_err (list_remove wm1 (watermelons g)) (\<lambda>ws1.
         bind_err (list_remove wm2 ws1) (\<lambda>ws2.
           let new_wm = next_id g;
               h = (heap g)(new_wm := Watermelon_init new_pos new_level MOVING)
           in bind_err (Physics_add new_wm ph2) (\<lambda>ph3.
              bind_err (list_remove (wm1, wm2) (merge_pairs ph3)) (\<lambda>ps.
                Inr (g\<lparr>heap := h, next_id := Suc new_wm,
                        physics := ph3\<lparr>merge_pairs := ps\<rparr>,
                        watermelons := ws2 @ [new_wm],
                        score := max (score g) new_level\<rparr>))))))))"

text \<open>\<^verbatim>\<open>Game._process_merges\<close>: the loop runs over a copy of the pending pairs.\<close>

fun process_merges_loop :: "float_ops \<Rightarrow> (nat \<times> nat) list \<Rightarrow> game \<Rightarrow> error + game" where
  "process_merges_loop fp [] g = Inr g"
| "process_merges_loop fp ((wm1, wm2) # ps) g =
     (if wm1 \<in> set (watermelons g) \<and> wm2 \<in> set (watermelons g)
      then bind_err (merge_pair fp wm1 wm2 g) (process_merges_loop fp ps)
      else process_merges_loop fp ps g)"

definition process_merges :: "float_ops \<Rightarrow> game \<Rightarrow> error + game" where
  "process_merges fp g = process_merges_loop fp (merge_pairs (physics g)) g"

text \<open>The search loop of \<^verbatim>\<open>Game._update\<close> for a piece under the spawn point.\<close>

fun spawn_collision :: "float_ops \<Rightarrow> watermelon \<Rightarrow> nat list \<Rightarrow> game \<Rightarrow> bool" where
  "spawn_collision fp new_wm [] g = False"
| "spawn_collision fp new_wm (wm # wms) g =
     (if check_collision fp new_wm (heap g wm) then True else spawn_collision fp new_wm wms g)"

text \<open>The first block of \<^verbatim>\<open>Game._update\<close>: cooldown and spawn.\<close>

definition update_spawn :: "float_ops \<Rightarrow> game \<Rightarrow> game" where
  "update_spawn fp g =
     (if \<not> can_spawn g
      then (let g1 = g\<lparr>cooldown := fsub fp (cooldown g) (fl_div fp 1 (real_of_int FPS))\<rparr>
            in if fle (cooldown g1) (of_py_int 0)
               then (let g2 = g1\<lparr>can_spawn := True\<rparr>;
                         new_wm = Watermelon_init spawn_pos 1 WAITING
                     in if \<not> spawn_collision fp new_wm (watermelons g2) g2
                        then (let n = next_id g2
                              in g2\<lparr>heap := (heap g2)(n := new_wm), next_id := Suc n,
                                    watermelons := watermelons g2 @ [n], waiting_wm := n\<rparr>)
                        else g2\<lparr>game_over := True\<rparr>)
               else g1)
      else g)"

text \<open>The second block of \<^verbatim>\<open>Game._update\<close>: \<^verbatim>\<open>for wm in self.watermelons: wm.update()\<close>\<close>

fun update_all :: "nat list \<Rightarrow> (nat \<Rightarrow> watermelon) \<Rightarrow> (nat \<Rightarrow> watermelon)" where
  "update_all [] h = h"
| "update_all (wm # wms) h = update_all wms (h(wm := Watermelon_update (h wm)))"

definition update_pieces :: "game \<Rightarrow> game" where
  "update_pieces g = g\<lparr>heap := update_all (watermelons g) (heap g)\<rparr>"

text \<open>\<^verbatim>\<open>Game._update\<close>: cooldown and spawn, the pieces' own updates, then the merges.\<close>

definition Game_update :: "float_ops \<Rightarrow> game \<Rightarrow> error + game" where
  "Game_update fp g = process_merges fp (update_pieces (update_spawn fp g))"

section \<open>Input and the physics engine\<close>

datatype key = K_r | K_DOWN | K_SPACE | K_LEFT | K_RIGHT | K_other

datatype event = QUIT | KEYDOWN key | Other_event

text \<open>
  What the engine does in one \<^verbatim>\<open>space.step\<close> is not computed here: it is part of the
  frame's input. \<open>moved\<close> gives the position after the step of the body of each piece
  registered in the space, \<open>contacts\<close> the pairs of pieces for which the engine calls the
  collision callback, in order. The engine only moves and only reports shapes that are in
  the space, and a contact has two different bodies.
\<close>

record step_outcome =
  moved :: "nat \<Rightarrow> vec"
  contacts :: "(nat \<times> nat) list"

record frame_input =
  events :: "event list"
  key_left :: bool
  key_right :: bool
  outcome :: step_outcome

text \<open>The event loop of \<^verbatim>\<open>Game._handle_input\<close>\<close>

fun handle_events :: "float_ops \<Rightarrow> event list \<Rightarrow> game \<Rightarrow> error + game" where
  "handle_events fp [] g = Inr g"
| "handle_events fp (QUIT # es) g = Inl SystemExit"
| "handle_events fp (KEYDOWN k # es) g =
     (if game_over g \<and> k = K_r then handle_events fp es (Game_init g)
      else if \<not> game_over g
      then (if k = K_DOWN \<or> k = K_SPACE then bind_err (release_wm fp g) (handle_events fp es)
            else handle_events fp es g)
      else handle_events fp es g)"
| "handle_events fp (Other_event # es) g = handle_events fp es g"

text \<open>The pressed-keys block of \<^verbatim>\<open>Game._handle_input\<close>\<close>

definition move_left :: "float_ops \<Rightarrow> watermelon \<Rightarrow> watermelon" where
  "move_left fp wm =
     set_position (fsub fp (fst (position (body wm))) (Fin 5),
                   fsub fp (snd (position (body wm))) (Fin 0)) wm"

definition move_right :: "float_ops \<Rightarrow> watermelon \<Rightarrow> watermelon" where
  "move_right fp wm =
     set_position (fadd fp (fst (position (body wm))) (Fin 5),
                   fadd fp (snd (position (body wm))) (Fin 0)) wm"

definition handle_keys :: "float_ops \<Rightarrow> bool \<Rightarrow> bool \<Rightarrow> game \<Rightarrow> game" where
  "handle_keys fp left right g =
     (if \<not> game_over g \<and> state (heap g (waiting_wm g)) = WAITING
      then (let w = waiting_wm g;
                h1 = (if left then (heap g)(w := move_left fp (heap g w)) else heap g);
                h2 = (if right then h1(w := move_right fp (h1 w)) else h1)
            in g\<lparr>heap := h2\<rparr>)
      else g)"

definition handle_input :: "float_ops \<Rightarrow> frame_input \<Rightarrow> game \<Rightarrow> error + game" where
  "handle_input fp inp g =
     bind_err (handle_events fp (events inp) g)
       (\<lambda>g1. Inr (handle_keys fp (key_left inp) (key_right inp) g1))"

text \<open>\<^verbatim>\<open>Physics.step\<close>: bodies at a non-finite position leave the space, then the engine
  steps: it moves the registered bodies and calls the collision callback.\<close>

definition evict_nonfinite :: "game \<Rightarrow> game" where
  "evict_nonfinite g =
     g\<lparr>physics := (physics g)\<lparr>space_bodies :=
         filter (\<lambda>b. isfinite (fst (position (body (heap g b))))
                     \<and> isfinite (snd (position (body (heap g b)))))
                (space_bodies (physics g))\<rparr>\<rparr>"

fun move_bodies :: "nat list \<Rightarrow> (nat \<Rightarrow> vec) \<Rightarrow> (nat \<Rightarrow> watermelon) \<Rightarrow> (nat \<Rightarrow> watermelon)" where
  "move_bodies [] m h = h"
| "move_bodies (b # bs) m h = move_bodies bs m (h(b := set_position (m b) (h b)))"

fun run_callbacks :: "(nat \<times> nat) list \<Rightarrow> game \<Rightarrow> game" where
  "run_callbacks [] g = g"
| "run_callbacks (c # cs) g =
     (if fst c \<noteq> snd c \<and> fst c \<in> set (space_bodies (physics g))
         \<and> snd c \<in> set (space_bodies (physics g))
      then run_callbacks cs (collision_handler c g)
      else run_callbacks cs g)"

definition space_step :: "step_outcome \<Rightarrow> game \<Rightarrow> game" where
  "space_step out g =
     run_callbacks (contacts out)
       (g\<lparr>heap := move_bodies (space_bodies (physics g)) (moved out) (heap g)\<rparr>)"

definition Physics_step :: "step_outcome \<Rightarrow> game \<Rightarrow> game" where
  "Physics_step out g = space_step out (evict_nonfinite g)"

text \<open>One turn of the loop of \<^verbatim>\<open>Game.run\<close>. Drawing and the clock are left out: they
  write nothing in the game's state.\<close>

definition frame :: "float_ops \<Rightarrow> frame_input \<Rightarrow> game \<Rightarrow> error + game" where
  "frame fp inp g =
     bind_err (handle_input fp inp g) (\<lambda>g1.
       if \<not> game_over g1
       then bind_err (Game_update fp g1) (\<lambda>g2. Inr (Physics_step (outcome inp) g2))
       else Inr g1)"

text \<open>The loop of \<^verbatim>\<open>Game.run\<close> has no exit of its own: \<open>run\<close> gives the state after the
  frames of a finite list of inputs, or the error that ended the program.\<close>

fun run :: "float_ops \<Rightarrow> frame_input list \<Rightarrow> game \<Rightarrow> error + game" where
  "run fp [] g = Inr g"
| "run fp (inp # inps) g = bind_err (frame fp inp g) (run fp inps)"

section \<open>Invariants of the game state\<close>

text \<open>The pieces named by a list of pending pairs, in order.\<close>

definition pair_ids :: "(nat \<times> nat) list \<Rightarrow> nat list" where
  "pair_ids ps = concat (map (\<lambda>p. [fst p, snd p]) ps)"

definition wm_ok :: "watermelon \<Rightarrow> bool" where
  "wm_ok wm \<longleftrightarrow> 1 \<le> level wm \<and> level wm \<le> MAX_LEVEL \<and> radius wm = calculate_radius (level wm)"

text \<open>Every body in the space is that of a live piece that is not Waiting, and is there
  once.\<close>

definition inv_registry :: "game \<Rightarrow> bool" where
  "inv_registry g \<longleftrightarrow>
     distinct (watermelons g) \<and> distinct (space_bodies (physics g)) \<and>
     set (space_bodies (physics g))
       \<subseteq> set (filter (\<lambda>i. state (heap g i) \<noteq> WAITING) (watermelons g))"

text \<open>Every live piece that is not Waiting has its body in the space.\<close>

definition all_registered :: "game \<Rightarrow> bool" where
  "all_registered g \<longleftrightarrow>
     set (filter (\<lambda>i. state (heap g i) \<noteq> WAITING) (watermelons g))
       \<subseteq> set (space_bodies (physics g))"

definition inv_fresh :: "game \<Rightarrow> bool" where
  "inv_fresh g \<longleftrightarrow> (\<forall>i \<in> set (watermelons g). i < next_id g) \<and> waiting_wm g < next_id g"

text \<open>Only the tracked piece can be Waiting; while it is, spawning is allowed and the piece
  is live.\<close>

definition inv_waiting :: "game \<Rightarrow> bool" where
  "inv_waiting g \<longleftrightarrow>
     (\<forall>i \<in> set (watermelons g). state (heap g i) = WAITING \<longrightarrow> i = waiting_wm g) \<and>
     (state (heap g (waiting_wm g)) = WAITING \<longrightarrow> can_spawn g \<and> waiting_wm g \<in> set (watermelons g))"

text \<open>No piece is in two pending pairs or twice in one; a piece in a pending pair is
  registered in the space and flagged; the two pieces of a pair have one level.\<close>

definition inv_pairs :: "game \<Rightarrow> bool" where
  "inv_pairs g \<longleftrightarrow>
     distinct (pair_ids (merge_pairs (physics g))) \<and>
     (\<forall>i \<in> set (pair_ids (merge_pairs (physics g))).
        i \<in> set (space_bodies (physics g)) \<and> merged (heap g i)) \<and>
     (\<forall>p \<in> set (merge_pairs (physics g)). level (heap g (fst p)) = level (heap g (snd p)))"

definition inv_levels :: "game \<Rightarrow> bool" where
  "inv_levels g \<longleftrightarrow>
     (\<forall>i \<in> set (watermelons g). wm_ok (heap g i)) \<and> 1 \<le> score g \<and> score g \<le> MAX_LEVEL + 1"

definition game_inv :: "game \<Rightarrow> bool" where
  "game_inv g \<longleftrightarrow> inv_registry g \<and> inv_fresh g \<and> inv_waiting g \<and> inv_pairs g \<and> inv_levels g"

text \<open>The state that \<open>merge_pair\<close> returns when nothing raises (lemma \<open>merge_pair_result\<close>).\<close>

definition merged_state :: "float_ops \<Rightarrow> nat \<Rightarrow> nat \<Rightarrow> game \<Rightarrow> game" where
  "merged_state fp a b g =
     g\<lparr>heap := (heap g)(next_id g := Watermelon_init
                 (midpoint fp (position (body (heap g a))) (position (body (heap g b))))
                 (level (heap g a) + 1) MOVING),
       next_id := Suc (next_id g),
       physics := (physics g)\<lparr>
          space_bodies := remove1 b (remove1 a (space_bodies (physics g))) @ [next_id g],
          merge_pairs := remove1 (a, b) (merge_pairs (physics g))\<rparr>,
       watermelons := remove1 b (remove1 a (watermelons g)) @ [next_id g],
       score := max (score g) (level (heap g a) + 1)\<rparr>"

text \<open>The state that \<open>release_wm\<close> returns when the piece is let go (lemma \<open>release_wm_cases\<close>).\<close>

definition released_state :: "game \<Rightarrow> game" where
  "released_state g =
     g\<lparr>heap := (heap g)(waiting_wm g := convert_to_dynamic (heap g (waiting_wm g))),
       physics := (physics g)\<lparr>space_bodies := space_bodies (physics g) @ [waiting_wm g]\<rparr>,
       can_spawn := False,
       cooldown := of_py_int COOLDOWN_TIME\<rparr>"

text \<open>From \<open>g\<close> to \<open>g'\<close> no piece that exists in \<open>g\<close> loses its merge flag.\<close>

definition flags_kept :: "game \<Rightarrow> game \<Rightarrow> bool" where
  "flags_kept g g' \<longleftrightarrow>
     next_id g \<le> next_id g' \<and> (\<forall>i < next_id g. merged (heap g i) \<longrightarrow> merged (heap g' i))"

text \<open>In the frames of a run from \<open>g\<close>, the scan of \<^verbatim>\<open>Physics.step\<close> for bodies at a
  non-finite position removes no body.\<close>

fun no_eviction :: "float_ops \<Rightarrow> frame_input list \<Rightarrow> game \<Rightarrow> bool" where
  "no_eviction fp [] g = True"
| "no_eviction fp (inp # inps) g =
     (case handle_input fp inp g of
        Inl e \<Rightarrow> True
      | Inr g1 \<Rightarrow>
          if game_over g1 then no_eviction fp inps g1
          else (case Game_update fp g1 of
                  Inl e \<Rightarrow> True
                | Inr g2 \<Rightarrow>
                    space_bodies (physics (evict_nonfinite g2)) = space_bodies (physics g2)
                    \<and> no_eviction fp inps (Physics_step (outcome inp) g2)))"

text \<open>The claim about the arena walls. The side walls are the third and the fourth border
  of \<^verbatim>\<open>_create_borders\<close>, vertical segments whose radius makes them reach \<open>seg_radius\<close> to
  each side of their line. The circle of radius \<open>r\<close> about \<open>x\<close> lies inside the walls when it
  is between the inner face of the left wall and the inner face of the right wall.\<close>

definition inside_walls :: "real \<Rightarrow> int \<Rightarrow> bool" where
  "inside_walls x r \<longleftrightarrow>
     (let left_wall = create_borders ! 2; right_wall = create_borders ! 3
      in real_of_int (fst (seg_a left_wall) + seg_radius left_wall) \<le> x - real_of_int r \<and>
         x + real_of_int r \<le> real_of_int (fst (seg_a right_wall) - seg_radius right_wall))"

section \<open>Example inputs\<close>

text \<open>An idealised platform for the examples: every float operation gives the exact
  result. The coordinates in the examples are numbers on which IEEE doubles give the same
  results; the fractions of the cooldown are not.\<close>

definition exact_fp :: float_ops where
  "exact_fp =
     \<lparr>fl_add = (\<lambda>a b. Fin (a + b)), fl_sub = (\<lambda>a b. Fin (a - b)),
      fl_mul = (\<lambda>a b. Fin (a * b)), fl_div = (\<lambda>a b. Fin (a / b)),
      fl_hypot = (\<lambda>a b. Fin (sqrt (a * a + b * b))), nine_tenths = 9 / 10\<rparr>"

text \<open>A game object before \<^verbatim>\<open>__init__\<close> has assigned its fields, with an empty heap of
  pieces (every cell holds the same unused value).\<close>

definition blank_game :: game where
  "blank_game =
     \<lparr>heap = (\<lambda>_. Watermelon_init (Fin 0, Fin 0) 1 STOPPED), next_id = 0,
      physics = Physics_init, watermelons = [], waiting_wm = 0, score = 0,
      game_over = False, cooldown = Fin 0, can_spawn = False\<rparr>"

text \<open>A step of the engine that puts every registered body at \<open>p\<close> and reports the
  contacts \<open>cs\<close>.\<close>

definition step_to :: "vec \<Rightarrow> (nat \<times> nat) list \<Rightarrow> step_outcome" where
  "step_to p cs = \<lparr>moved = (\<lambda>_. p), contacts = cs\<rparr>"

text \<open>A frame in which no key is touched, and one in which the release key goes down.\<close>

definition idle_frame :: "step_outcome \<Rightarrow> frame_input" where
  "idle_frame out = \<lparr>events = [], key_left = False, key_right = False, outcome = out\<rparr>"

definition release_frame :: "step_outcome \<Rightarrow> frame_input" where
  "release_frame out =
     \<lparr>events = [KEYDOWN K_SPACE], key_left = False, key_right = False, outcome = out\<rparr>"

text \<open>Steps of the engine used below: every body far down at (300, 700); every body at
  (300, 100), just under the spawn point; two pieces side by side at the bottom, 80 apart.\<close>

definition far :: "(nat \<times> nat) list \<Rightarrow> step_outcome" where
  "far cs = step_to (Fin 300, Fin 700) cs"

definition near :: "(nat \<times> nat) list \<Rightarrow> step_outcome" where
  "near cs = step_to (Fin 300, Fin 100) cs"

definition side_by_side :: "(nat \<times> nat) list \<Rightarrow> step_outcome" where
  "side_by_side cs = \<lparr>moved = (\<lambda>i. (Fin (260 + 80 * real i), Fin 700)), contacts = cs\<rparr>"

text \<open>The first piece is released and falls; the cooldown of one second runs out in the
  sixtieth frame, where the second piece appears.\<close>

definition cooldown_run :: "frame_input list" where
  "cooldown_run = release_frame (far []) # replicate 59 (idle_frame (far []))"

text \<open>The same, but in the sixtieth frame the first piece bounces up under the spawn point.\<close>

definition near_run :: "frame_input list" where
  "near_run = release_frame (far []) # replicate 58 (idle_frame (far [])) @ [idle_frame (near [])]"

text \<open>After the cooldown the second piece is released too, and the engine reports that
  the two pieces touch.\<close>

definition contact_run :: "frame_input list" where
  "contact_run = cooldown_run @ [release_frame (side_by_side [(0, 1)])]"

text \<open>The states these three runs end in (lemmas \<open>cooldown_run_result\<close>,
  \<open>near_run_result\<close>, \<open>contact_run_result\<close>): a level-1 piece that was released, at
  position \<open>p\<close> and with merge flag \<open>m\<close>, and the level-1 piece waiting at the spawn
  point.\<close>

definition dropped :: "vec \<Rightarrow> bool \<Rightarrow> watermelon" where
  "dropped p m =
     \<lparr>level = 1, radius = 45, state = MOVING, merged = m,
      body = \<lparr>body_type = DYNAMIC, mass = 120, moment = 121500, position = p\<rparr>\<rparr>"

definition waiting_piece :: watermelon where
  "waiting_piece =
     \<lparr>level = 1, radius = 45, state = WAITING, merged = False,
      body = \<lparr>body_type = KINEMATIC, mass = 0, moment = 0, position = (Fin 300, Fin 50)\<rparr>\<rparr>"

definition spawned_state :: "vec \<Rightarrow> game" where
  "spawned_state p =
     \<lparr>heap = (heap blank_game)(Suc 0 := waiting_piece, 0 := dropped p False),
      next_id = Suc (Suc 0),
      physics = Physics_init\<lparr>space_bodies := [0]\<rparr>,
      watermelons = [0, Suc 0], waiting_wm = Suc 0, score = 1,
      game_over = False, cooldown = Fin 0, can_spawn = True\<rparr>"

definition contact_state :: game where
  "contact_state =
     \<lparr>heap = (heap blank_game)(0 := dropped (Fin 260, Fin 700) True,
                                Suc 0 := dropped (Fin 340, Fin 700) True),
      next_id = Suc (Suc 0),
      physics = Physics_init\<lparr>space_bodies := [0, Suc 0], merge_pairs := [(0, Suc 0)]\<rparr>,
      watermelons = [0, Suc 0], waiting_wm = Suc 0, score = 1,
      game_over = False, cooldown = Fin (59 / 60), can_spawn = False\<rparr>"

text \<open>The run one frame before the second piece appears, and the state it ends in
  (lemma \<open>falling_run_result\<close>).\<close>

definition falling_run :: "frame_input list" where
  "falling_run = release_frame (far []) # replicate 58 (idle_frame (far []))"

definition falling_state :: game where
  "falling_state =
     \<lparr>heap = (heap blank_game)(0 := dropped (Fin 300, Fin 700) False),
      next_id = Suc 0,
      physics = Physics_init\<lparr>space_bodies := [0]\<rparr>,
      watermelons = [0], waiting_wm = 0, score = 1,
      game_over = False, cooldown = Fin (1 / 60), can_spawn = False\<rparr>"

text \<open>The state one idle frame after \<open>contact_state\<close>: the two level-1 pieces are fused
  into a level-2 piece (lemma \<open>fused_result\<close>).\<close>

definition fused_state :: game where
  "fused_state =
     \<lparr>heap = (heap blank_game)(0 := dropped (Fin 260, Fin 700) True,
                                Suc 0 := dropped (Fin 340, Fin 700) True,
                                Suc (Suc 0) := Watermelon_init (Fin 300, Fin 700) 2 MOVING),
      next_id = Suc (Suc (Suc 0)),
      physics = Physics_init\<lparr>space_bodies := [Suc (Suc 0)]\<rparr>,
      watermelons = [Suc (Suc 0)], waiting_wm = Suc 0, score = 2,
      game_over = False, cooldown = Fin (29 / 30), can_spawn = False\<rparr>"

text \<open>Late in a game: two pieces of the top level 10, side by side and in contact, the
  score at 10.\<close>

definition top_piece :: "vec \<Rightarrow> watermelon" where
  "top_piece p = (Watermelon_init p 10 MOVING)\<lparr>merged := True\<rparr>"

definition two_tens :: game where
  "two_tens =
     \<lparr>heap = (heap blank_game)(0 := top_piece (Fin 180, Fin 670),
                                Suc 0 := top_piece (Fin 420, Fin 670)),
      next_id = Suc (Suc 0),
      physics = Physics_init\<lparr>space_bodies := [0, Suc 0], merge_pairs := [(0, Suc 0)]\<rparr>,
      watermelons = [0, Suc 0], waiting_wm = Suc 0, score = 10,
      game_over = False, cooldown = Fin (59 / 60), can_spawn = False\<rparr>"

text \<open>The player holds the left key from the start for sixty frames; the piece at the
  spawn point moves left by 5 a frame until the clamp of \<^verbatim>\<open>update\<close> stops it (lemma
  \<open>hold_left_result\<close>).\<close>

definition hold_left :: frame_input where
  "hold_left = \<lparr>events = [], key_left = True, key_right = False, outcome = far []\<rparr>"

definition left_state :: game where
  "left_state =
     \<lparr>heap = (heap blank_game)(0 := set_position (Fin 45, Fin 50) waiting_piece),
      next_id = Suc 0,
      physics = Physics_init,
      watermelons = [0], waiting_wm = 0, score = 1,
      game_over = False, cooldown = Fin 0, can_spawn = True\<rparr>"

text \<open>Float addition that overflows: exact below \<open>2 ^ 1024\<close>, an infinity from there on, as
  for IEEE doubles when the exact sum is a float or beyond the largest one. A step of the
  engine that puts every body far to the right, at \<open>x = 2 ^ 1023\<close>. And the run in which
  two level-1 pieces are released, are put there in contact by the engine, and fuse in the
  next frame (lemma \<open>overflow_leaves_piece_without_body\<close>).\<close>

definition overflow_fp :: float_ops where
  "overflow_fp =
     exact_fp\<lparr>fl_add := (\<lambda>a b. if 2 ^ 1024 \<le> a + b then PInf
                                 else if a + b \<le> - (2 ^ 1024) then NInf else Fin (a + b))\<rparr>"

definition far_out :: "(nat \<times> nat) list \<Rightarrow> step_outcome" where
  "far_out cs = step_to (Fin (2 ^ 1023), Fin 700) cs"

definition far_out_run :: "frame_input list" where
  "far_out_run = cooldown_run @ [release_frame (far_out [(0, 1)]), idle_frame (far [])]"

definition far_out_state :: game where
  "far_out_state =
     \<lparr>heap = (heap blank_game)(0 := dropped (Fin (2 ^ 1023), Fin 700) True,
                                Suc 0 := dropped (Fin (2 ^ 1023), Fin 700) True),
      next_id = Suc (Suc 0),
      physics = Physics_init\<lparr>space_bodies := [0, Suc 0], merge_pairs := [(0, Suc 0)]\<rparr>,
      watermelons = [0, Suc 0], waiting_wm = Suc 0, score = 1,
      game_over = False, cooldown = Fin (59 / 60), can_spawn = False\<rparr>"

section \<open>Auxiliary lemmas\<close>

subsection \<open>Error plumbing\<close>

lemma bind_err_simps [simp]:
  "bind_err (Inr x) f = f x" "bind_err (Inl e) f = Inl e"
  by (simp_all add: bind_err_def)

lemma bind_err_Inr_iff: "bind_err m f = Inr y \<longleftrightarrow> (\<exists>x. m = Inr x \<and> f x = Inr y)"
  by (cases m) simp_all

lemma bind_err_Inl_iff:
  "bind_err m f = Inl e \<longleftrightarrow> (m = Inl e \<or> (\<exists>x. m = Inr x \<and> f x = Inl e))"
  by (cases m) simp_all

subsection \<open>Writes that keep level, radius, state and flag\<close>

lemma set_position_attrs [simp]:
  "level (set_position p w) = level w" "radius (set_position p w) = radius w"
  "state (set_position p w) = state w" "merged (set_position p w) = merged w"
  "position (body (set_position p w)) = p"
  by (simp_all add: set_position_def)

lemma Watermelon_update_attrs [simp]:
  "level (Watermelon_update w) = level w" "radius (Watermelon_update w) = radius w"
  "state (Watermelon_update w) = state w" "merged (Watermelon_update w) = merged w"
  by (simp_all add: Watermelon_update_def Let_def)

lemma inv_registry_heap_cong:
  assumes "inv_registry g" and "\<And>i. state (h i) = state (heap g i)"
  shows "inv_registry (g\<lparr>heap := h\<rparr>)"
  using assms by (simp add: inv_registry_def)

lemma inv_fresh_heap [simp]: "inv_fresh (g\<lparr>heap := h\<rparr>) = inv_fresh g"
  by (simp add: inv_fresh_def)

lemma inv_waiting_heap_cong:
  assumes "inv_waiting g" and "\<And>i. state (h i) = state (heap g i)"
  shows "inv_waiting (g\<lparr>heap := h\<rparr>)"
  using assms by (simp add: inv_waiting_def)

lemma inv_pairs_heap_cong:
  assumes "inv_pairs g" and "\<And>i. level (h i) = level (heap g i)"
    and "\<And>i. merged (heap g i) \<Longrightarrow> merged (h i)"
  shows "inv_pairs (g\<lparr>heap := h\<rparr>)"
  using assms by (simp add: inv_pairs_def)

lemma inv_levels_heap_cong:
  assumes "inv_levels g" and "\<And>i. level (h i) = level (heap g i)"
    and "\<And>i. radius (h i) = radius (heap g i)"
  shows "inv_levels (g\<lparr>heap := h\<rparr>)"
  using assms by (simp add: inv_levels_def wm_ok_def)

lemma game_inv_heap_cong:
  assumes "game_inv g"
    and "\<And>i. level (h i) = level (heap g i)" "\<And>i. radius (h i) = radius (heap g i)"
    and "\<And>i. state (h i) = state (heap g i)" "\<And>i. merged (heap g i) \<Longrightarrow> merged (h i)"
  shows "game_inv (g\<lparr>heap := h\<rparr>)"
  using assms unfolding game_inv_def
  by (simp add: inv_registry_heap_cong inv_waiting_heap_cong inv_pairs_heap_cong
      inv_levels_heap_cong)

subsection \<open>Updating every live piece\<close>

lemma update_all_attrs [simp]:
  "level (update_all ws h i) = level (h i)" "radius (update_all ws h i) = radius (h i)"
  "state (update_all ws h i) = state (h i)" "merged (update_all ws h i) = merged (h i)"
  by (induction ws arbitrary: h; simp)+

subsection \<open>Pending pairs\<close>

lemma pair_ids_Cons [simp]: "pair_ids (p # ps) = fst p # snd p # pair_ids ps"
  by (simp add: pair_ids_def)

lemma pair_ids_Nil [simp]: "pair_ids [] = []"
  by (simp add: pair_ids_def)

lemma pair_ids_append [simp]: "pair_ids (ps @ qs) = pair_ids ps @ pair_ids qs"
  by (simp add: pair_ids_def)

lemma pair_ids_member: "p \<in> set ps \<Longrightarrow> fst p \<in> set (pair_ids ps) \<and> snd p \<in> set (pair_ids ps)"
  by (induction ps) auto

lemma pair_ids_distinct_neq: "distinct (pair_ids ps) \<Longrightarrow> p \<in> set ps \<Longrightarrow> fst p \<noteq> snd p"
  by (induction ps) auto

lemma pair_ids_remove1_subset: "set (pair_ids (remove1 p ps)) \<subseteq> set (pair_ids ps)"
  by (induction ps) auto

lemma pair_ids_remove1_distinct: "distinct (pair_ids ps) \<Longrightarrow> distinct (pair_ids (remove1 p ps))"
proof (induction ps)
  case Nil
  then show ?case by simp
next
  case (Cons q ps)
  then show ?case using pair_ids_remove1_subset [of p ps] by auto
qed

lemma pair_ids_remove1_notin:
  "distinct (pair_ids ps) \<Longrightarrow> p \<in> set ps \<Longrightarrow>
     fst p \<notin> set (pair_ids (remove1 p ps)) \<and> snd p \<notin> set (pair_ids (remove1 p ps))"
proof (induction ps)
  case Nil
  then show ?case by simp
next
  case (Cons q ps)
  show ?case
  proof (cases "p = q")
    case True
    with Cons.prems show ?thesis by auto
  next
    case False
    with Cons.prems have "p \<in> set ps" by simp
    with Cons have ih: "fst p \<notin> set (pair_ids (remove1 p ps)) \<and> snd p \<notin> set (pair_ids (remove1 p ps))"
      by simp
    from \<open>p \<in> set ps\<close> have "fst p \<in> set (pair_ids ps)" "snd p \<in> set (pair_ids ps)"
      by (simp_all add: pair_ids_member)
    with Cons.prems ih False show ?thesis by auto
  qed
qed

lemma remove1_pair_set: "set (remove1 p ps) \<subseteq> set ps"
  by (induction ps) auto

subsection \<open>One merge\<close>

text \<open>The state after a merge of \<open>a\<close> and \<open>b\<close> that raises nothing.\<close>

lemma merge_pair_facts:
  assumes inv: "game_inv g" and pend: "(a, b) \<in> set (merge_pairs (physics g))"
  shows "a \<noteq> b" "a \<in> set (space_bodies (physics g))" "b \<in> set (space_bodies (physics g))"
    "a \<in> set (watermelons g)" "b \<in> set (watermelons g)"
    "state (heap g a) \<noteq> WAITING" "state (heap g b) \<noteq> WAITING"
    "next_id g \<notin> set (space_bodies (physics g))" "next_id g \<notin> set (watermelons g)"
    "a < next_id g" "b < next_id g" "level (heap g a) = level (heap g b)"
    "merged (heap g a)" "merged (heap g b)"
proof -
  from inv have reg: "inv_registry g" and fr: "inv_fresh g" and pr: "inv_pairs g"
    by (simp_all add: game_inv_def)
  from pend have ids: "a \<in> set (pair_ids (merge_pairs (physics g)))"
    "b \<in> set (pair_ids (merge_pairs (physics g)))"
    using pair_ids_member [of "(a, b)"] by auto
  from pr pend have neq: "a \<noteq> b"
    using pair_ids_distinct_neq [of "merge_pairs (physics g)" "(a, b)"] by (simp add: inv_pairs_def)
  from pr ids have sp: "a \<in> set (space_bodies (physics g))" "b \<in> set (space_bodies (physics g))"
    by (simp_all add: inv_pairs_def)
  with reg have live: "a \<in> set (watermelons g)" "b \<in> set (watermelons g)"
    by (auto simp add: inv_registry_def)
  from reg fr have new: "next_id g \<notin> set (space_bodies (physics g))"
    by (auto simp add: inv_registry_def inv_fresh_def)
  from sp neq have sp2: "b \<in> set (remove1 a (space_bodies (physics g)))" by simp
  from live neq have live2: "b \<in> set (remove1 a (watermelons g))" by simp
  from new have new2: "next_id g \<notin> set (remove1 b (remove1 a (space_bodies (physics g))))"
    by (meson notin_set_remove1)
  from reg fr have new': "next_id g \<notin> set (watermelons g)"
    by (auto simp add: inv_fresh_def)
  from reg sp have st: "state (heap g a) \<noteq> WAITING" "state (heap g b) \<noteq> WAITING"
    by (auto simp add: inv_registry_def)
  from fr live have lt: "a < next_id g" "b < next_id g"
    by (auto simp add: inv_fresh_def)
  from pr pend have lv: "level (heap g a) = level (heap g b)"
    by (auto simp add: inv_pairs_def)
  from pr ids have mg: "merged (heap g a)" "merged (heap g b)"
    by (simp_all add: inv_pairs_def)
  show "a \<noteq> b" "a \<in> set (space_bodies (physics g))" "b \<in> set (space_bodies (physics g))"
    "a \<in> set (watermelons g)" "b \<in> set (watermelons g)"
    "state (heap g a) \<noteq> WAITING" "state (heap g b) \<noteq> WAITING"
    "next_id g \<notin> set (space_bodies (physics g))" "next_id g \<notin> set (watermelons g)"
    "a < next_id g" "b < next_id g" "level (heap g a) = level (heap g b)"
    "merged (heap g a)" "merged (heap g b)"
    by (fact neq sp live st new new' lt lv mg)+
qed

lemma merge_pair_result:
  assumes inv: "game_inv g" and pend: "(a, b) \<in> set (merge_pairs (physics g))"
  shows "merge_pair fp a b g = Inr (merged_state fp a b g)"
proof -
  note f = merge_pair_facts [OF inv pend]
  from f have sp2: "b \<in> set (remove1 a (space_bodies (physics g)))" by simp
  from f have live2: "b \<in> set (remove1 a (watermelons g))" by simp
  from f have new2: "next_id g \<notin> set (remove1 b (remove1 a (space_bodies (physics g))))"
    by (meson notin_set_remove1)
  show ?thesis
    using f(2,4) sp2 live2 new2 pend
    by (simp add: merge_pair_def merged_state_def Physics_remove_def Physics_add_def
        list_remove_def Let_def)
qed

lemma Watermelon_init_fields [simp]:
  "state (Watermelon_init p l st) = st" "merged (Watermelon_init p l st) = False"
  "level (Watermelon_init p l st) = min l MAX_LEVEL"
  "radius (Watermelon_init p l st) = calculate_radius (min l MAX_LEVEL)"
  "position (body (Watermelon_init p l st)) = p"
  by (simp_all add: Watermelon_init_def init_physics_def Let_def)

lemma merged_state_registry:
  assumes inv: "game_inv g" and pend: "(a, b) \<in> set (merge_pairs (physics g))"
  shows "inv_registry (merged_state fp a b g)"
proof -
  note f = merge_pair_facts [OF inv pend]
  from inv have reg: "inv_registry g" by (simp add: game_inv_def)
  then have d: "distinct (watermelons g)" "distinct (space_bodies (physics g))"
    and sub: "set (space_bodies (physics g))
       \<subseteq> {i \<in> set (watermelons g). state (heap g i) \<noteq> WAITING}"
    by (simp_all add: inv_registry_def)
  have n1: "next_id g \<notin> set (remove1 b (remove1 a (watermelons g)))"
    using f(9) by (meson notin_set_remove1)
  have n2: "next_id g \<notin> set (remove1 b (remove1 a (space_bodies (physics g))))"
    using f(8) by (meson notin_set_remove1)
  have "set (remove1 b (remove1 a (space_bodies (physics g)))) \<subseteq>
        {i \<in> set (remove1 b (remove1 a (watermelons g))). state (heap g i) \<noteq> WAITING}"
    using d sub by (auto simp add: set_remove1_eq)
  moreover have "\<And>i. i \<in> set (remove1 b (remove1 a (watermelons g))) \<Longrightarrow> i \<noteq> next_id g"
    using n1 by auto
  ultimately show ?thesis
    using d n1 n2 by (auto simp add: inv_registry_def merged_state_def)
qed

lemma merged_state_all_registered:
  assumes inv: "game_inv g" and pend: "(a, b) \<in> set (merge_pairs (physics g))"
    and full: "all_registered g"
  shows "all_registered (merged_state fp a b g)"
proof -
  from inv have d: "distinct (watermelons g)" "distinct (space_bodies (physics g))"
    by (simp_all add: game_inv_def inv_registry_def)
  have n1: "next_id g \<notin> set (remove1 b (remove1 a (watermelons g)))"
    using merge_pair_facts(9) [OF inv pend] by (meson notin_set_remove1)
  from full have "\<And>i. i \<in> set (remove1 b (remove1 a (watermelons g))) \<Longrightarrow>
      state (heap g i) \<noteq> WAITING \<Longrightarrow> i \<in> set (remove1 b (remove1 a (space_bodies (physics g))))"
    using d by (auto simp add: all_registered_def set_remove1_eq)
  with n1 show ?thesis
    by (auto simp add: all_registered_def merged_state_def)
qed

lemma merged_state_fresh:
  assumes inv: "game_inv g" and pend: "(a, b) \<in> set (merge_pairs (physics g))"
  shows "inv_fresh (merged_state fp a b g)"
proof -
  from inv have fr: "inv_fresh g" by (simp add: game_inv_def)
  have "\<And>i. i \<in> set (remove1 b (remove1 a (watermelons g))) \<Longrightarrow> i \<in> set (watermelons g)"
    by (meson notin_set_remove1)
  with fr show ?thesis
    by (auto simp add: inv_fresh_def merged_state_def less_Suc_eq)
qed

lemma merged_state_waiting:
  assumes inv: "game_inv g" and pend: "(a, b) \<in> set (merge_pairs (physics g))"
  shows "inv_waiting (merged_state fp a b g)"
proof -
  note f = merge_pair_facts [OF inv pend]
  from inv have w: "inv_waiting g" and fr: "inv_fresh g" by (simp_all add: game_inv_def)
  from fr have wn: "waiting_wm g \<noteq> next_id g" by (simp add: inv_fresh_def)
  have sub: "\<And>i. i \<in> set (remove1 b (remove1 a (watermelons g))) \<Longrightarrow> i \<in> set (watermelons g)"
    by (meson notin_set_remove1)
  have keep: "\<And>i. i \<in> set (watermelons g) \<Longrightarrow> i \<noteq> a \<Longrightarrow> i \<noteq> b \<Longrightarrow>
     i \<in> set (remove1 b (remove1 a (watermelons g)))"
    by simp
  from w f(6,7) have "state (heap g (waiting_wm g)) = WAITING \<Longrightarrow>
     waiting_wm g \<in> set (remove1 b (remove1 a (watermelons g)))"
    by (intro keep) (auto simp add: inv_waiting_def)
  with w wn sub show ?thesis
    by (auto simp add: inv_waiting_def merged_state_def)
qed

lemma merged_state_pairs:
  assumes inv: "game_inv g" and pend: "(a, b) \<in> set (merge_pairs (physics g))"
  shows "inv_pairs (merged_state fp a b g)"
proof -
  note f = merge_pair_facts [OF inv pend]
  let ?ps = "merge_pairs (physics g)"
  from inv have p: "inv_pairs g" and reg: "inv_registry g" and fr: "inv_fresh g"
    by (simp_all add: game_inv_def)
  from p have d: "distinct (pair_ids ?ps)" by (simp add: inv_pairs_def)
  have d': "distinct (pair_ids (remove1 (a, b) ?ps))"
    using d by (rule pair_ids_remove1_distinct)
  have notin: "a \<notin> set (pair_ids (remove1 (a, b) ?ps))" "b \<notin> set (pair_ids (remove1 (a, b) ?ps))"
    using pair_ids_remove1_notin [OF d pend] by simp_all
  have old: "\<And>i. i \<in> set (pair_ids (remove1 (a, b) ?ps)) \<Longrightarrow> i \<in> set (pair_ids ?ps)"
    using pair_ids_remove1_subset by fast
  have reg_i: "\<And>i. i \<in> set (pair_ids (remove1 (a, b) ?ps)) \<Longrightarrow>
      i \<in> set (remove1 b (remove1 a (space_bodies (physics g)))) \<and> merged (heap g i) \<and> i \<noteq> next_id g"
  proof -
    fix i assume i: "i \<in> set (pair_ids (remove1 (a, b) ?ps))"
    with notin have "i \<noteq> a" "i \<noteq> b" by auto
    moreover from i p have "i \<in> set (space_bodies (physics g))" "merged (heap g i)"
      using old by (auto simp add: inv_pairs_def)
    moreover from this f(8) have "i \<noteq> next_id g" by auto
    ultimately show "i \<in> set (remove1 b (remove1 a (space_bodies (physics g)))) \<and> merged (heap g i) \<and> i \<noteq> next_id g"
      by simp
  qed
  have lv: "\<And>q. q \<in> set (remove1 (a, b) ?ps) \<Longrightarrow>
      level (heap g (fst q)) = level (heap g (snd q)) \<and> fst q \<noteq> next_id g \<and> snd q \<noteq> next_id g"
  proof -
    fix q assume q: "q \<in> set (remove1 (a, b) ?ps)"
    then have q': "q \<in> set ?ps" by (meson notin_set_remove1)
    from q have "fst q \<in> set (pair_ids (remove1 (a, b) ?ps))" "snd q \<in> set (pair_ids (remove1 (a, b) ?ps))"
      by (simp_all add: pair_ids_member)
    with reg_i have "fst q \<noteq> next_id g" "snd q \<noteq> next_id g" by blast+
    with p q' show "level (heap g (fst q)) = level (heap g (snd q)) \<and> fst q \<noteq> next_id g \<and> snd q \<noteq> next_id g"
      by (simp add: inv_pairs_def)
  qed
  show ?thesis
    using d' reg_i lv by (auto simp add: inv_pairs_def merged_state_def)
qed

lemma merged_state_levels:
  assumes inv: "game_inv g" and pend: "(a, b) \<in> set (merge_pairs (physics g))"
  shows "inv_levels (merged_state fp a b g)"
proof -
  note f = merge_pair_facts [OF inv pend]
  from inv have l: "inv_levels g" by (simp add: game_inv_def)
  with f(4) have la: "1 \<le> level (heap g a)" "level (heap g a) \<le> MAX_LEVEL"
    by (auto simp add: inv_levels_def wm_ok_def)
  have sub: "\<And>i. i \<in> set (remove1 b (remove1 a (watermelons g))) \<Longrightarrow> i \<in> set (watermelons g)"
    by (meson notin_set_remove1)
  have new: "wm_ok (Watermelon_init p (level (heap g a) + 1) MOVING)" for p
    using la by (simp add: wm_ok_def MAX_LEVEL_def)
  from l la sub new show ?thesis
    by (auto simp add: inv_levels_def merged_state_def)
qed

lemma merged_state_inv:
  assumes "game_inv g" and "(a, b) \<in> set (merge_pairs (physics g))"
  shows "game_inv (merged_state fp a b g)"
  using assms
  by (simp add: game_inv_def [of "merged_state fp a b g"] merged_state_registry merged_state_fresh
      merged_state_waiting merged_state_pairs merged_state_levels)

subsection \<open>The merge loop\<close>

lemma merge_pair_fields:
  assumes "merge_pair fp a b g = Inr g'"
  shows "game_over g' = game_over g \<and> can_spawn g' = can_spawn g \<and>
         waiting_wm g' = waiting_wm g \<and> cooldown g' = cooldown g \<and>
         score g' = max (score g) (level (heap g a) + 1)"
  using assms
  by (auto simp add: merge_pair_def Let_def bind_err_Inr_iff)

lemma process_merges_loop_fields:
  "process_merges_loop fp ps g = Inr g' \<Longrightarrow>
     game_over g' = game_over g \<and> can_spawn g' = can_spawn g \<and>
     waiting_wm g' = waiting_wm g \<and> cooldown g' = cooldown g \<and> score g \<le> score g'"
proof (induction fp ps g rule: process_merges_loop.induct)
  case (1 fp g)
  then show ?case by simp
next
  case (2 fp wm1 wm2 ps g)
  show ?case
  proof (cases "wm1 \<in> set (watermelons g) \<and> wm2 \<in> set (watermelons g)")
    case True
    with "2.prems" obtain g1 where m: "merge_pair fp wm1 wm2 g = Inr g1"
      and r: "process_merges_loop fp ps g1 = Inr g'"
      by (auto simp add: bind_err_Inr_iff)
    from "2.IH"(1) [OF True r] merge_pair_fields [OF m] show ?thesis by simp
  next
    case False
    with "2.prems" have "process_merges_loop fp ps g = Inr g'" by auto
    with "2.IH"(2) False show ?thesis by blast
  qed
qed


lemma process_merges_loop_prefix:
  "game_inv g \<Longrightarrow> merge_pairs (physics g) = ps @ qs \<Longrightarrow>
     \<exists>g'. process_merges_loop fp ps g = Inr g' \<and> game_inv g' \<and> merge_pairs (physics g') = qs
          \<and> (all_registered g \<longrightarrow> all_registered g')"
proof (induction ps arbitrary: g)
  case Nil
  then show ?case by simp
next
  case (Cons p ps)
  obtain a b where p: "p = (a, b)" by (cases p)
  with Cons.prems have pend: "(a, b) \<in> set (merge_pairs (physics g))" by simp
  note f = merge_pair_facts [OF Cons.prems(1) pend]
  have res: "merge_pair fp a b g = Inr (merged_state fp a b g)"
    using Cons.prems(1) pend by (rule merge_pair_result)
  have inv': "game_inv (merged_state fp a b g)"
    using Cons.prems(1) pend by (rule merged_state_inv)
  have rest: "merge_pairs (physics (merged_state fp a b g)) = ps @ qs"
    using Cons.prems(2) p by (simp add: merged_state_def)
  from Cons.IH [OF inv' rest] obtain g' where
    g': "process_merges_loop fp ps (merged_state fp a b g) = Inr g'" "game_inv g'"
      "merge_pairs (physics g') = qs"
      "all_registered (merged_state fp a b g) \<longrightarrow> all_registered g'"
    by blast
  have "all_registered g \<longrightarrow> all_registered g'"
    using g'(4) merged_state_all_registered [OF Cons.prems(1) pend] by blast
  with g' f(4,5) res p show ?case by simp
qed

lemma process_merges_loop_drains:
  "game_inv g \<Longrightarrow> merge_pairs (physics g) = ps \<Longrightarrow>
     \<exists>g'. process_merges_loop fp ps g = Inr g' \<and> game_inv g' \<and> merge_pairs (physics g') = []
          \<and> (all_registered g \<longrightarrow> all_registered g')"
  using process_merges_loop_prefix [where g = g and ps = ps and qs = "[]" and fp = fp] by simp

lemma process_merges_drains:
  "game_inv g \<Longrightarrow>
     \<exists>g'. process_merges fp g = Inr g' \<and> game_inv g' \<and> merge_pairs (physics g') = []
          \<and> (all_registered g \<longrightarrow> all_registered g')"
  unfolding process_merges_def by (rule process_merges_loop_drains) simp_all

subsection \<open>The collision callback\<close>

lemma mark_attrs:
  fixes h :: "nat \<Rightarrow> watermelon"
  defines "h' \<equiv> \<lambda>a. h(a := (h a)\<lparr>merged := True\<rparr>)"
  shows "level (h' a i) = level (h i)" "radius (h' a i) = radius (h i)"
    "state (h' a i) = state (h i)" "merged (h i) \<Longrightarrow> merged (h' a i)" "merged (h' a a)"
    "position (body (h' a i)) = position (body (h i))"
  by (simp_all add: h'_def)

lemma collision_handler_inv:
  assumes inv: "game_inv g" and ab: "a \<noteq> b"
    and sp: "a \<in> set (space_bodies (physics g))" "b \<in> set (space_bodies (physics g))"
  shows "game_inv (collision_handler (a, b) g)"
proof (cases "level (heap g a) = level (heap g b) \<and> \<not> merged (heap g a) \<and> \<not> merged (heap g b)
    \<and> state (heap g a) \<noteq> WAITING \<and> state (heap g b) \<noteq> WAITING")
  case False
  then have "collision_handler (a, b) g = g" by (auto simp add: collision_handler_def)
  with inv show ?thesis by simp
next
  case True
  define h1 where "h1 = (heap g)(a := (heap g a)\<lparr>merged := True\<rparr>)"
  define h2 where "h2 = h1(b := (h1 b)\<lparr>merged := True\<rparr>)"
  let ?g1 = "g\<lparr>heap := h2\<rparr>"
  have eq: "collision_handler (a, b) g =
      ?g1\<lparr>physics := (physics ?g1)\<lparr>merge_pairs := merge_pairs (physics ?g1) @ [(a, b)]\<rparr>\<rparr>"
    using True by (simp add: collision_handler_def Let_def h1_def h2_def)
  have attrs: "\<And>i. level (h2 i) = level (heap g i)" "\<And>i. radius (h2 i) = radius (heap g i)"
    "\<And>i. state (h2 i) = state (heap g i)" "\<And>i. merged (heap g i) \<Longrightarrow> merged (h2 i)"
    by (simp_all add: h1_def h2_def)
  have mab: "merged (h2 a)" "merged (h2 b)" by (simp_all add: h1_def h2_def)
  have inv1: "game_inv ?g1" using inv attrs by (rule game_inv_heap_cong)
  then have p1: "inv_pairs ?g1" by (simp add: game_inv_def)
  from inv have p0: "inv_pairs g" by (simp add: game_inv_def)
  from True p0 have fresh: "a \<notin> set (pair_ids (merge_pairs (physics g)))"
    "b \<notin> set (pair_ids (merge_pairs (physics g)))"
    by (auto simp add: inv_pairs_def)
  have "inv_pairs (?g1\<lparr>physics := (physics ?g1)\<lparr>merge_pairs := merge_pairs (physics ?g1) @ [(a, b)]\<rparr>\<rparr>)"
    using p1 fresh ab sp mab True attrs(1) by (auto simp add: inv_pairs_def)
  moreover have "inv_registry (?g1\<lparr>physics := (physics ?g1)\<lparr>merge_pairs := merge_pairs (physics ?g1) @ [(a, b)]\<rparr>\<rparr>)"
    using inv1 by (simp add: game_inv_def inv_registry_def)
  moreover have "inv_fresh (?g1\<lparr>physics := (physics ?g1)\<lparr>merge_pairs := merge_pairs (physics ?g1) @ [(a, b)]\<rparr>\<rparr>)"
    using inv1 by (simp add: game_inv_def inv_fresh_def)
  moreover have "inv_waiting (?g1\<lparr>physics := (physics ?g1)\<lparr>merge_pairs := merge_pairs (physics ?g1) @ [(a, b)]\<rparr>\<rparr>)"
    using inv1 by (simp add: game_inv_def inv_waiting_def)
  moreover have "inv_levels (?g1\<lparr>physics := (physics ?g1)\<lparr>merge_pairs := merge_pairs (physics ?g1) @ [(a, b)]\<rparr>\<rparr>)"
    using inv1 by (simp add: game_inv_def inv_levels_def)
  ultimately show ?thesis unfolding eq game_inv_def by blast
qed

lemma collision_handler_space [simp]:
  "space_bodies (physics (collision_handler c g)) = space_bodies (physics g)"
  by (simp add: collision_handler_def Let_def)

lemma run_callbacks_inv: "game_inv g \<Longrightarrow> game_inv (run_callbacks cs g)"
proof (induction cs arbitrary: g)
  case Nil
  then show ?case by simp
next
  case (Cons c cs)
  show ?case
  proof (cases "fst c \<noteq> snd c \<and> fst c \<in> set (space_bodies (physics g))
         \<and> snd c \<in> set (space_bodies (physics g))")
    case True
    then have "game_inv (collision_handler (fst c, snd c) g)"
      using Cons.prems by (intro collision_handler_inv) simp_all
    then have "game_inv (run_callbacks cs (collision_handler c g))"
      by (intro Cons.IH) simp
    with True show ?thesis by simp
  next
    case False
    with Cons show ?thesis by auto
  qed
qed

subsection \<open>The physics step\<close>

lemma move_bodies_attrs [simp]:
  "level (move_bodies bs m h i) = level (h i)" "radius (move_bodies bs m h i) = radius (h i)"
  "state (move_bodies bs m h i) = state (h i)" "merged (move_bodies bs m h i) = merged (h i)"
  by (induction bs arbitrary: h; simp)+

lemma evict_nonfinite_inv:
  assumes "game_inv g" and "merge_pairs (physics g) = []"
  shows "game_inv (evict_nonfinite g)"
proof -
  from assms(1) have "inv_registry (evict_nonfinite g)"
    by (auto simp add: game_inv_def inv_registry_def evict_nonfinite_def)
  moreover from assms(1) have "inv_fresh (evict_nonfinite g)"
    by (simp add: game_inv_def inv_fresh_def evict_nonfinite_def)
  moreover from assms(1) have "inv_waiting (evict_nonfinite g)"
    by (simp add: game_inv_def inv_waiting_def evict_nonfinite_def)
  moreover from assms(2) have "inv_pairs (evict_nonfinite g)"
    by (simp add: inv_pairs_def evict_nonfinite_def)
  moreover from assms(1) have "inv_levels (evict_nonfinite g)"
    by (simp add: game_inv_def inv_levels_def evict_nonfinite_def)
  ultimately show ?thesis by (simp add: game_inv_def)
qed

lemma space_step_inv:
  assumes "game_inv g"
  shows "game_inv (space_step out g)"
proof -
  have "game_inv (g\<lparr>heap := move_bodies (space_bodies (physics g)) (moved out) (heap g)\<rparr>)"
    using assms by (rule game_inv_heap_cong) simp_all
  then show ?thesis by (simp add: space_step_def run_callbacks_inv)
qed

lemma Physics_step_inv:
  assumes "game_inv g" and "merge_pairs (physics g) = []"
  shows "game_inv (Physics_step out g)"
  unfolding Physics_step_def by (rule space_step_inv) (rule evict_nonfinite_inv [OF assms])

subsection \<open>Construction, release and spawn\<close>

lemma Game_init_inv: "game_inv (Game_init g)"
  by (simp add: Game_init_def create_waiting_wm_def Physics_init_def Let_def game_inv_def
      inv_registry_def inv_fresh_def inv_waiting_def inv_pairs_def inv_levels_def wm_ok_def
      MAX_LEVEL_def)

lemma convert_to_dynamic_attrs [simp]:
  "level (convert_to_dynamic w) = level w" "radius (convert_to_dynamic w) = radius w"
  "merged (convert_to_dynamic w) = merged w"
  "position (body (convert_to_dynamic w)) = position (body w)"
  "state (convert_to_dynamic w) \<noteq> WAITING"
  "state w = WAITING \<Longrightarrow> state (convert_to_dynamic w) = MOVING"
  by (simp_all add: convert_to_dynamic_def)

text \<open>The state after a release that goes through.\<close>

lemma release_wm_cases:
  assumes inv: "game_inv g"
  shows "release_wm fp g =
     (if \<not> can_spawn g \<or> state (heap g (waiting_wm g)) \<noteq> WAITING then Inr g
      else if release_collision fp (watermelons g) g then Inr (g\<lparr>game_over := True\<rparr>)
      else Inr (released_state g))"
proof -
  {
    assume w: "state (heap g (waiting_wm g)) = WAITING"
    from inv have "set (space_bodies (physics g)) \<subseteq>
        set (filter (\<lambda>i. state (heap g i) \<noteq> WAITING) (watermelons g))"
      by (simp add: game_inv_def inv_registry_def)
    with w have "waiting_wm g \<notin> set (space_bodies (physics g))" by auto
  }
  then show ?thesis
    by (auto simp add: release_wm_def released_state_def Physics_add_def Let_def)
qed

lemma released_state_inv:
  assumes inv: "game_inv g" and w: "state (heap g (waiting_wm g)) = WAITING"
  shows "game_inv (released_state g)"
proof -
  let ?w = "waiting_wm g"
  let ?h = "(heap g)(?w := convert_to_dynamic (heap g ?w))"
  from inv have reg: "inv_registry g" and wt: "inv_waiting g" and pr: "inv_pairs g"
    and lv: "inv_levels g" and fr: "inv_fresh g"
    by (simp_all add: game_inv_def)
  from wt w have live: "?w \<in> set (watermelons g)" by (simp add: inv_waiting_def)
  from reg w have notin: "?w \<notin> set (space_bodies (physics g))"
    by (auto simp add: inv_registry_def)
  have st: "\<And>i. i \<in> set (watermelons g) \<Longrightarrow> state (?h i) \<noteq> WAITING"
    using wt by (auto simp add: inv_waiting_def)
  have st': "\<And>i. i \<noteq> ?w \<Longrightarrow> state (?h i) = state (heap g i)" by simp
  have "set (filter (\<lambda>i. state (?h i) \<noteq> WAITING) (watermelons g)) =
        insert ?w (set (filter (\<lambda>i. state (heap g i) \<noteq> WAITING) (watermelons g)))"
    using live st wt by (auto simp add: inv_waiting_def)
  with reg notin have "inv_registry (released_state g)"
    by (auto simp add: inv_registry_def released_state_def)
  moreover from fr have "inv_fresh (released_state g)"
    by (simp add: inv_fresh_def released_state_def)
  moreover from st have "inv_waiting (released_state g)"
    by (auto simp add: inv_waiting_def released_state_def)
  moreover from pr have "inv_pairs (released_state g)"
    by (auto simp add: inv_pairs_def released_state_def)
  moreover from lv have "inv_levels (released_state g)"
    by (auto simp add: inv_levels_def released_state_def wm_ok_def)
  ultimately show ?thesis by (simp add: game_inv_def)
qed

lemma game_inv_game_over [simp]: "game_inv (g\<lparr>game_over := x\<rparr>) = game_inv g"
  by (simp add: game_inv_def inv_registry_def inv_fresh_def inv_waiting_def inv_pairs_def
      inv_levels_def)

lemma release_wm_inv:
  assumes "game_inv g"
  shows "\<exists>g'. release_wm fp g = Inr g' \<and> game_inv g'"
  using assms released_state_inv [OF assms]
  by (auto simp add: release_wm_cases)

lemma handle_events_inv:
  "game_inv g \<Longrightarrow>
     (\<exists>g'. handle_events fp es g = Inr g' \<and> game_inv g') \<or> handle_events fp es g = Inl SystemExit"
proof (induction es arbitrary: g)
  case Nil
  then show ?case by simp
next
  case (Cons e es)
  show ?case
  proof (cases e)
    case QUIT
    then show ?thesis by simp
  next
    case Other_event
    with Cons show ?thesis by simp
  next
    case (KEYDOWN k)
    from release_wm_inv [OF Cons.prems] obtain g1 where
      g1: "release_wm fp g = Inr g1" "game_inv g1" by blast
    from Cons.IH [OF Game_init_inv] Cons.IH [OF g1(2)] Cons.IH [OF Cons.prems] g1(1) KEYDOWN
    show ?thesis by simp
  qed
qed

lemma handle_keys_inv: "game_inv g \<Longrightarrow> game_inv (handle_keys fp l r g)"
  unfolding handle_keys_def Let_def
  by (auto intro!: game_inv_heap_cong simp add: move_left_def move_right_def)

lemma handle_input_inv:
  "game_inv g \<Longrightarrow>
     (\<exists>g'. handle_input fp inp g = Inr g' \<and> game_inv g') \<or> handle_input fp inp g = Inl SystemExit"
  using handle_events_inv [where g = g and es = "events inp" and fp = fp]
  by (auto simp add: handle_input_def handle_keys_inv)

subsection \<open>Cooldown and spawn\<close>

lemma game_inv_cooldown [simp]: "game_inv (g\<lparr>cooldown := x\<rparr>) = game_inv g"
  by (simp add: game_inv_def inv_registry_def inv_fresh_def inv_waiting_def inv_pairs_def
      inv_levels_def)

lemma no_waiting_when_blocked:
  assumes "game_inv g" and "\<not> can_spawn g"
  shows "\<forall>i \<in> set (watermelons g). state (heap g i) \<noteq> WAITING"
  using assms by (auto simp add: game_inv_def inv_waiting_def)

lemma spawned_inv:
  assumes inv: "game_inv g" and blocked: "\<not> can_spawn g"
  shows "game_inv (g\<lparr>can_spawn := True,
                    heap := (heap g)(next_id g := Watermelon_init spawn_pos 1 WAITING),
                    next_id := Suc (next_id g),
                    watermelons := watermelons g @ [next_id g], waiting_wm := next_id g\<rparr>)"
    (is "game_inv ?g'")
proof -
  from inv have reg: "inv_registry g" and wt: "inv_waiting g" and pr: "inv_pairs g"
    and lv: "inv_levels g" and fr: "inv_fresh g"
    by (simp_all add: game_inv_def)
  note nw = no_waiting_when_blocked [OF inv blocked]
  from fr have new: "next_id g \<notin> set (watermelons g)" by (auto simp add: inv_fresh_def)
  with reg have new': "next_id g \<notin> set (space_bodies (physics g))"
    by (auto simp add: inv_registry_def)
  have same: "\<And>i. i \<in> set (watermelons g) \<Longrightarrow>
      ((heap g)(next_id g := Watermelon_init spawn_pos 1 WAITING)) i = heap g i"
    using new by auto
  have "set (filter (\<lambda>i. state (((heap g)(next_id g := Watermelon_init spawn_pos 1 WAITING)) i) \<noteq> WAITING)
          (watermelons g)) = set (filter (\<lambda>i. state (heap g i) \<noteq> WAITING) (watermelons g))"
    using same by (auto simp del: fun_upd_apply)
  with reg new have "inv_registry ?g'"
    by (simp add: inv_registry_def)
  moreover from fr have "inv_fresh ?g'"
    by (auto simp add: inv_fresh_def less_Suc_eq)
  moreover from nw new have "inv_waiting ?g'"
    by (auto simp add: inv_waiting_def)
  moreover have "inv_pairs ?g'"
  proof -
    have ids: "\<And>i. i \<in> set (pair_ids (merge_pairs (physics g))) \<Longrightarrow> i \<noteq> next_id g"
      using pr new' by (auto simp add: inv_pairs_def)
    then have "\<And>p. p \<in> set (merge_pairs (physics g)) \<Longrightarrow> fst p \<noteq> next_id g \<and> snd p \<noteq> next_id g"
      using pair_ids_member by blast
    with pr ids show ?thesis
      by (simp add: inv_pairs_def)
  qed
  moreover from lv new have "inv_levels ?g'"
    by (auto simp add: inv_levels_def wm_ok_def MAX_LEVEL_def)
  ultimately show ?thesis by (simp add: game_inv_def)
qed

lemma blocked_can_spawn_inv:
  assumes inv: "game_inv g" and blocked: "\<not> can_spawn g"
  shows "game_inv (g\<lparr>can_spawn := True\<rparr>)"
proof -
  from inv have "inv_registry (g\<lparr>can_spawn := True\<rparr>)"
    by (simp add: game_inv_def inv_registry_def)
  moreover from inv have "inv_fresh (g\<lparr>can_spawn := True\<rparr>)"
    by (simp add: game_inv_def inv_fresh_def)
  moreover from inv have "inv_waiting (g\<lparr>can_spawn := True\<rparr>)"
    by (simp add: game_inv_def inv_waiting_def)
  moreover from inv have "inv_pairs (g\<lparr>can_spawn := True\<rparr>)"
    by (simp add: game_inv_def inv_pairs_def)
  moreover from inv have "inv_levels (g\<lparr>can_spawn := True\<rparr>)"
    by (simp add: game_inv_def inv_levels_def)
  ultimately show ?thesis by (simp add: game_inv_def)
qed

lemma update_spawn_inv:
  assumes inv: "game_inv g"
  shows "game_inv (update_spawn fp g)"
proof (cases "can_spawn g")
  case True
  with inv show ?thesis by (simp add: update_spawn_def)
next
  case False
  let ?g1 = "g\<lparr>cooldown := fsub fp (cooldown g) (fl_div fp 1 (real_of_int FPS))\<rparr>"
  have inv1: "game_inv ?g1" using inv by simp
  have b1: "\<not> can_spawn ?g1" using False by simp
  from spawned_inv [OF inv1 b1] blocked_can_spawn_inv [OF inv1 b1] inv1 False
  show ?thesis
    by (simp add: update_spawn_def Let_def)
qed

lemma update_pieces_inv:
  assumes "game_inv g"
  shows "game_inv (update_pieces g)"
  unfolding update_pieces_def using assms by (rule game_inv_heap_cong) simp_all

lemma Game_update_inv:
  assumes inv: "game_inv g"
  shows "\<exists>g'. Game_update fp g = Inr g' \<and> game_inv g' \<and> merge_pairs (physics g') = []"
proof -
  have "game_inv (update_spawn fp g)" using inv by (rule update_spawn_inv)
  from process_merges_drains [OF update_pieces_inv [OF this]]
  show ?thesis
    by (auto simp add: Game_update_def)
qed

subsection \<open>Frames and runs\<close>

lemma frame_inv:
  assumes inv: "game_inv g"
  shows "(\<exists>g'. frame fp inp g = Inr g' \<and> game_inv g') \<or> frame fp inp g = Inl SystemExit"
proof -
  from handle_input_inv [OF inv, where inp = inp and fp = fp]
  show ?thesis
  proof
    assume "handle_input fp inp g = Inl SystemExit"
    then show ?thesis by (simp add: frame_def)
  next
    assume "\<exists>g'. handle_input fp inp g = Inr g' \<and> game_inv g'"
    then obtain g1 where g1: "handle_input fp inp g = Inr g1" "game_inv g1" by blast
    from Game_update_inv [OF g1(2)] obtain g2 where
      g2: "Game_update fp g1 = Inr g2" "game_inv g2" "merge_pairs (physics g2) = []" by blast
    have "game_inv (Physics_step (outcome inp) g2)"
      using g2(2,3) by (rule Physics_step_inv)
    with g1 g2 show ?thesis by (simp add: frame_def)
  qed
qed

lemma run_inv:
  "game_inv g \<Longrightarrow> (\<exists>g'. run fp inps g = Inr g' \<and> game_inv g') \<or> run fp inps g = Inl SystemExit"
proof (induction inps arbitrary: g)
  case Nil
  then show ?case by simp
next
  case (Cons inp inps)
  from frame_inv [OF Cons.prems, where inp = inp and fp = fp] show ?case
  proof
    assume "frame fp inp g = Inl SystemExit"
    then show ?thesis by simp
  next
    assume "\<exists>g'. frame fp inp g = Inr g' \<and> game_inv g'"
    then obtain g1 where "frame fp inp g = Inr g1" "game_inv g1" by blast
    with Cons.IH [OF this(2)] show ?thesis by simp
  qed
qed

lemma run_Game_init_inv: "run fp inps (Game_init g0) = Inr g \<Longrightarrow> game_inv g"
  using run_inv [OF Game_init_inv [of g0], where inps = inps and fp = fp] by auto

subsection \<open>Evaluating the examples\<close>

lemma sqrt_less_iff_sq:
  fixes d c :: real
  assumes "0 \<le> d"
  shows "sqrt d < c \<longleftrightarrow> 0 < c \<and> d < c * c"
proof (cases "0 < c")
  case True
  then have "sqrt (c * c) = c" by simp
  then have "sqrt d < c \<longleftrightarrow> sqrt d < sqrt (c * c)" by simp
  also have "\<dots> \<longleftrightarrow> d < c * c" by (rule real_sqrt_less_iff)
  finally show ?thesis using True by simp
next
  case False
  moreover have "0 \<le> sqrt d" using assms by simp
  ultimately show ?thesis by linarith
qed

lemmas const_defs = WIDTH_def HEIGHT_def MAX_LEVEL_def FPS_def COOLDOWN_TIME_def

lemmas float_defs = exact_fp_def overflow_fp_def

lemmas piece_defs = Watermelon_init_def init_physics_def convert_to_dynamic_def
  Watermelon_update_def set_position_def calculate_radius_def moment_for_circle_def
  of_py_int_def py_min_def py_max_def spawn_pos_def midpoint_def check_collision_def
  sqrt_less_iff_sq

lemmas game_defs = frame_def handle_input_def handle_keys_def move_left_def move_right_def
  release_wm_def Game_update_def
  update_spawn_def update_pieces_def process_merges_def Physics_step_def evict_nonfinite_def
  space_step_def Game_init_def create_waiting_wm_def Physics_init_def create_borders_def
  Physics_add_def Physics_remove_def list_remove_def collision_handler_def merge_pair_def

lemmas example_defs = blank_game_def step_to_def idle_frame_def release_frame_def far_def
  near_def side_by_side_def cooldown_run_def near_run_def contact_run_def dropped_def
  waiting_piece_def spawned_state_def contact_state_def

lemmas eval_defs = const_defs float_defs piece_defs game_defs example_defs Let_def

lemma cooldown_run_result:
  "run exact_fp cooldown_run (Game_init blank_game) = Inr (spawned_state (Fin 300, Fin 700))"
  by (simp add: eval_defs eval_nat_numeral)

lemma near_run_result:
  "run exact_fp near_run (Game_init blank_game) = Inr (spawned_state (Fin 300, Fin 100))"
  by (simp add: eval_defs eval_nat_numeral)

lemma run_append:
  "run fp (xs @ ys) g = bind_err (run fp xs g) (run fp ys)"
  by (induction xs arbitrary: g) (simp_all add: bind_err_def split: sum.splits)

lemma contact_run_result:
  "run exact_fp contact_run (Game_init blank_game) = Inr contact_state"
proof -
  have "frame exact_fp (release_frame (side_by_side [(0, 1)])) (spawned_state (Fin 300, Fin 700))
        = Inr contact_state"
    by (simp add: eval_defs)
  then show ?thesis
    by (simp add: contact_run_def [of] run_append cooldown_run_result)
qed

subsection \<open>The merge flag is only ever set\<close>

lemma flags_kept_refl [simp]: "flags_kept g g"
  by (simp add: flags_kept_def)

lemma flags_kept_trans: "flags_kept g g1 \<Longrightarrow> flags_kept g1 g2 \<Longrightarrow> flags_kept g g2"
  by (auto simp add: flags_kept_def)

lemma flags_kept_heap:
  "(\<And>i. merged (heap g i) \<Longrightarrow> merged (h i)) \<Longrightarrow> flags_kept g (g\<lparr>heap := h\<rparr>)"
  by (simp add: flags_kept_def)

lemma flags_kept_Game_init: "flags_kept g (Game_init g)"
  by (simp add: flags_kept_def Game_init_def create_waiting_wm_def Let_def)

lemma flags_kept_release_wm: "release_wm fp g = Inr g' \<Longrightarrow> flags_kept g g'"
  by (auto simp add: release_wm_def Let_def bind_err_Inr_iff Physics_add_def flags_kept_def
      split: if_splits)

lemma flags_kept_handle_events: "handle_events fp es g = Inr g' \<Longrightarrow> flags_kept g g'"
proof (induction fp es g rule: handle_events.induct)
  case (1 fp g)
  then show ?case by simp
next
  case (2 fp es g)
  then show ?case by simp
next
  case (3 fp k es g)
  show ?case
  proof (cases "game_over g \<and> k = K_r")
    case True
    with 3 have "flags_kept (Game_init g) g'" by simp
    with flags_kept_Game_init show ?thesis by (rule flags_kept_trans)
  next
    case False
    show ?thesis
    proof (cases "\<not> game_over g \<and> (k = K_DOWN \<or> k = K_SPACE)")
      case True
      with "3.prems" False obtain g1 where g1: "release_wm fp g = Inr g1" "handle_events fp es g1 = Inr g'"
        by (auto simp add: bind_err_Inr_iff)
      with "3.IH"(2) False True have "flags_kept g1 g'" by simp
      with flags_kept_release_wm [OF g1(1)] show ?thesis by (rule flags_kept_trans)
    next
      case no_release: False
      with 3 False show ?thesis by (auto split: if_splits)
    qed
  qed
next
  case (4 fp es g)
  then show ?case by simp
qed

lemma flags_kept_handle_keys: "flags_kept g (handle_keys fp l r g)"
  by (simp add: handle_keys_def Let_def flags_kept_def move_left_def move_right_def)

lemma flags_kept_handle_input: "handle_input fp inp g = Inr g' \<Longrightarrow> flags_kept g g'"
  by (auto simp add: handle_input_def bind_err_Inr_iff
      intro: flags_kept_trans [OF flags_kept_handle_events flags_kept_handle_keys])

lemma flags_kept_update_spawn: "flags_kept g (update_spawn fp g)"
  by (simp add: update_spawn_def Let_def flags_kept_def)

lemma flags_kept_update_pieces: "flags_kept g (update_pieces g)"
  by (simp add: update_pieces_def flags_kept_def)

lemma flags_kept_merge_pair: "merge_pair fp a b g = Inr g' \<Longrightarrow> flags_kept g g'"
  by (auto simp add: merge_pair_def Let_def bind_err_Inr_iff flags_kept_def)

lemma flags_kept_process_merges_loop: "process_merges_loop fp ps g = Inr g' \<Longrightarrow> flags_kept g g'"
proof (induction ps arbitrary: g)
  case Nil
  then show ?case by simp
next
  case (Cons p ps)
  obtain a b where p: "p = (a, b)" by (cases p)
  show ?case
  proof (cases "a \<in> set (watermelons g) \<and> b \<in> set (watermelons g)")
    case True
    with Cons.prems p obtain g1 where g1: "merge_pair fp a b g = Inr g1"
      "process_merges_loop fp ps g1 = Inr g'"
      by (auto simp add: bind_err_Inr_iff)
    from flags_kept_merge_pair [OF g1(1)] Cons.IH [OF g1(2)] show ?thesis
      by (rule flags_kept_trans)
  next
    case False
    with Cons p show ?thesis by auto
  qed
qed

lemma flags_kept_Game_update: "Game_update fp g = Inr g' \<Longrightarrow> flags_kept g g'"
  unfolding Game_update_def process_merges_def
  using flags_kept_update_spawn [where g = g and fp = fp] flags_kept_update_pieces [of "update_spawn fp g"]
    flags_kept_process_merges_loop
  by (blast intro: flags_kept_trans)

lemma flags_kept_collision_handler: "flags_kept g (collision_handler c g)"
  by (simp add: collision_handler_def Let_def flags_kept_def)

lemma flags_kept_run_callbacks: "flags_kept g (run_callbacks cs g)"
proof (induction cs arbitrary: g)
  case Nil
  then show ?case by simp
next
  case (Cons c cs)
  from flags_kept_collision_handler [of g c] Cons [of "collision_handler c g"] Cons [of g]
  show ?case by (auto intro: flags_kept_trans)
qed

lemma flags_kept_Physics_step: "flags_kept g (Physics_step out g)"
proof -
  let ?g1 = "evict_nonfinite g"
  let ?g2 = "?g1\<lparr>heap := move_bodies (space_bodies (physics ?g1)) (moved out) (heap ?g1)\<rparr>"
  have "flags_kept g ?g1" by (simp add: evict_nonfinite_def flags_kept_def)
  moreover have "flags_kept ?g1 ?g2" by (simp add: flags_kept_def)
  moreover have "flags_kept ?g2 (run_callbacks (contacts out) ?g2)"
    by (rule flags_kept_run_callbacks)
  ultimately show ?thesis
    unfolding Physics_step_def space_step_def by (blast intro: flags_kept_trans)
qed

lemma flags_kept_frame: "frame fp inp g = Inr g' \<Longrightarrow> flags_kept g g'"
  by (auto simp add: frame_def bind_err_Inr_iff split: if_splits
      intro: flags_kept_handle_input
        flags_kept_trans [OF flags_kept_handle_input
          flags_kept_trans [OF flags_kept_Game_update flags_kept_Physics_step]])

lemma flags_kept_run: "run fp inps g = Inr g' \<Longrightarrow> flags_kept g g'"
proof (induction inps arbitrary: g)
  case Nil
  then show ?case by simp
next
  case (Cons inp inps)
  then obtain g1 where "frame fp inp g = Inr g1" "run fp inps g1 = Inr g'"
    by (auto simp add: bind_err_Inr_iff)
  with Cons.IH flags_kept_frame show ?case by (blast intro: flags_kept_trans)
qed

subsection \<open>After game-over\<close>

lemma handle_events_game_over:
  assumes "game_over g" and "KEYDOWN K_r \<notin> set es"
  shows "handle_events fp es g = (if QUIT \<in> set es then Inl SystemExit else Inr g)"
  using assms
proof (induction es)
  case Nil
  then show ?case by simp
next
  case (Cons e es)
  then show ?case by (cases e) auto
qed

lemma frame_game_over:
  assumes "game_over g" and "KEYDOWN K_r \<notin> set (events inp)"
  shows "frame fp inp g = (if QUIT \<in> set (events inp) then Inl SystemExit else Inr g)"
  using assms
  by (simp add: frame_def handle_input_def handle_events_game_over handle_keys_def)

lemmas more_example_defs = falling_run_def falling_state_def fused_state_def top_piece_def
  two_tens_def

lemma falling_run_result: "run exact_fp falling_run (Game_init blank_game) = Inr falling_state"
  by (simp add: eval_defs more_example_defs eval_nat_numeral)

lemma fused_result: "frame exact_fp (idle_frame (far [])) contact_state = Inr fused_state"
  by (simp add: eval_defs more_example_defs)

lemma two_tens_inv: "game_inv two_tens"
  by (simp add: game_inv_def inv_registry_def inv_fresh_def inv_waiting_def inv_pairs_def
      inv_levels_def wm_ok_def eval_defs more_example_defs)

subsection \<open>Counting and searching\<close>

lemma count_list_distinct:
  "distinct xs \<Longrightarrow> count_list xs x = (if x \<in> set xs then 1 else 0)"
  by (induction xs) auto

lemma release_collision_iff:
  "release_collision fp ws g \<longleftrightarrow>
     (\<exists>i \<in> set ws. i \<noteq> waiting_wm g \<and> check_collision fp (heap g i) (heap g (waiting_wm g)))"
  by (induction ws) auto

lemma handle_events_inv_Inr:
  "game_inv g \<Longrightarrow> handle_events fp es g = Inr g' \<Longrightarrow> game_inv g'"
  using handle_events_inv [where g = g and es = es and fp = fp] by auto

lemma handle_input_inv_Inr:
  "game_inv g \<Longrightarrow> handle_input fp inp g = Inr g' \<Longrightarrow> game_inv g'"
  using handle_input_inv [where g = g and inp = inp and fp = fp] by auto

lemma pre_merge_inv:
  assumes "game_inv g"
  shows "game_inv (update_pieces (update_spawn fp g))"
  using assms by (simp add: update_spawn_inv update_pieces_inv)

lemma waiting_filter_le_1:
  assumes "inv_registry g" and "inv_waiting g"
  shows "length (filter (\<lambda>i. state (heap g i) = WAITING) (watermelons g)) \<le> 1"
proof -
  let ?ws = "filter (\<lambda>i. state (heap g i) = WAITING) (watermelons g)"
  from assms(1) have "distinct ?ws" by (simp add: inv_registry_def)
  then have "length ?ws = card (set ?ws)" by (rule distinct_card [symmetric])
  also from assms(2) have "set ?ws \<subseteq> {waiting_wm g}" by (auto simp add: inv_waiting_def)
  then have "card (set ?ws) \<le> card {waiting_wm g}" by (intro card_mono) simp_all
  finally show ?thesis by simp
qed

subsection \<open>What the merge loop leaves alone\<close>




subsection \<open>Runs in which the scan removes nothing\<close>

lemma all_registered_heap_cong:
  assumes "all_registered g" and "\<And>i. state (h i) = state (heap g i)"
  shows "all_registered (g\<lparr>heap := h\<rparr>)"
  using assms by (simp add: all_registered_def)

lemma all_registered_Game_init: "all_registered (Game_init g)"
  by (simp add: all_registered_def Game_init_def create_waiting_wm_def Let_def)

lemma all_registered_release_wm:
  assumes "game_inv g" and "all_registered g" and "release_wm fp g = Inr g'"
  shows "all_registered g'"
proof -
  have "all_registered (released_state g)"
    using assms(2) by (auto simp add: all_registered_def released_state_def)
  moreover have "all_registered (g\<lparr>game_over := True\<rparr>)"
    using assms(2) by (simp add: all_registered_def)
  ultimately show ?thesis
    using assms(2,3) by (auto simp add: release_wm_cases [OF assms(1)] split: if_splits)
qed

lemma all_registered_handle_events:
  "game_inv g \<Longrightarrow> all_registered g \<Longrightarrow> handle_events fp es g = Inr g' \<Longrightarrow> all_registered g'"
proof (induction es arbitrary: g)
  case Nil
  then show ?case by simp
next
  case (Cons e es)
  show ?case
  proof (cases e)
    case QUIT
    with Cons.prems show ?thesis by simp
  next
    case Other_event
    with Cons show ?thesis by simp
  next
    case (KEYDOWN k)
    show ?thesis
    proof (cases "game_over g \<and> k = K_r")
      case True
      with Cons.prems KEYDOWN have "handle_events fp es (Game_init g) = Inr g'" by simp
      with Cons.IH [OF Game_init_inv all_registered_Game_init] show ?thesis by blast
    next
      case False
      show ?thesis
      proof (cases "\<not> game_over g \<and> (k = K_DOWN \<or> k = K_SPACE)")
        case True
        with Cons.prems KEYDOWN False obtain g1 where
          g1: "release_wm fp g = Inr g1" "handle_events fp es g1 = Inr g'"
          by (auto simp add: bind_err_Inr_iff)
        from release_wm_inv [OF Cons.prems(1), of fp] g1(1) have "game_inv g1" by auto
        moreover have "all_registered g1"
          using Cons.prems(1,2) g1(1) by (rule all_registered_release_wm)
        ultimately show ?thesis using g1(2) by (rule Cons.IH)
      next
        case no_release: False
        with Cons.prems KEYDOWN False have "handle_events fp es g = Inr g'"
          by (auto split: if_splits)
        with Cons.IH [OF Cons.prems(1,2)] show ?thesis by blast
      qed
    qed
  qed
qed

lemma all_registered_handle_keys:
  "all_registered g \<Longrightarrow> all_registered (handle_keys fp l r g)"
  unfolding handle_keys_def Let_def
  by (auto intro!: all_registered_heap_cong simp add: move_left_def move_right_def)

lemma all_registered_handle_input:
  assumes "game_inv g" and "all_registered g" and "handle_input fp inp g = Inr g'"
  shows "all_registered g'"
proof -
  from assms(3) obtain g1 where g1: "handle_events fp (events inp) g = Inr g1"
    "g' = handle_keys fp (key_left inp) (key_right inp) g1"
    by (auto simp add: handle_input_def bind_err_Inr_iff)
  from assms(1,2) g1(1) have "all_registered g1" by (rule all_registered_handle_events)
  with g1(2) show ?thesis by (simp add: all_registered_handle_keys)
qed

lemma all_registered_update_spawn:
  assumes "game_inv g" and "all_registered g"
  shows "all_registered (update_spawn fp g)"
proof -
  from assms(1) have "next_id g \<notin> set (watermelons g)"
    by (auto simp add: game_inv_def inv_fresh_def)
  with assms(2) show ?thesis
    by (auto simp add: update_spawn_def Let_def all_registered_def)
qed

lemma all_registered_update_pieces:
  "all_registered g \<Longrightarrow> all_registered (update_pieces g)"
  unfolding update_pieces_def by (rule all_registered_heap_cong) simp_all

lemma all_registered_Game_update:
  assumes "game_inv g" and "all_registered g" and "Game_update fp g = Inr g'"
  shows "all_registered g'"
proof -
  let ?g2 = "update_pieces (update_spawn fp g)"
  have "game_inv ?g2" using assms(1) by (rule pre_merge_inv)
  moreover have "all_registered ?g2"
    using assms(1,2) by (simp add: all_registered_update_spawn all_registered_update_pieces)
  ultimately show ?thesis
    using process_merges_drains [of ?g2 fp] assms(3) by (auto simp add: Game_update_def)
qed

lemma run_callbacks_space [simp]:
  "space_bodies (physics (run_callbacks cs g)) = space_bodies (physics g)"
  by (induction cs arbitrary: g) simp_all

lemma collision_handler_attrs [simp]:
  "state (heap (collision_handler c g) i) = state (heap g i)"
  "watermelons (collision_handler c g) = watermelons g"
  by (simp_all add: collision_handler_def Let_def)

lemma run_callbacks_attrs [simp]:
  "state (heap (run_callbacks cs g) i) = state (heap g i)"
  "watermelons (run_callbacks cs g) = watermelons g"
  by (induction cs arbitrary: g; simp)+

lemma all_registered_space_step:
  "all_registered g \<Longrightarrow> all_registered (space_step out g)"
  by (simp add: all_registered_def space_step_def)

lemma evict_nonfinite_none:
  assumes "space_bodies (physics (evict_nonfinite g)) = space_bodies (physics g)"
  shows "evict_nonfinite g = g"
  using assms by (simp add: evict_nonfinite_def)

lemma all_registered_run:
  "game_inv g \<Longrightarrow> all_registered g \<Longrightarrow> no_eviction fp inps g \<Longrightarrow> run fp inps g = Inr g'
     \<Longrightarrow> all_registered g'"
proof (induction inps arbitrary: g)
  case Nil
  then show ?case by simp
next
  case (Cons inp inps)
  from Cons.prems(4) obtain g1 where g1: "handle_input fp inp g = Inr g1"
    by (auto simp add: frame_def bind_err_Inr_iff)
  from Cons.prems(1) g1 have inv1: "game_inv g1" by (rule handle_input_inv_Inr)
  from Cons.prems(1,2) g1 have reg1: "all_registered g1" by (rule all_registered_handle_input)
  show ?case
  proof (cases "game_over g1")
    case True
    with Cons.prems(3,4) g1 have "no_eviction fp inps g1" "run fp inps g1 = Inr g'"
      by (simp_all add: frame_def)
    with inv1 reg1 show ?thesis by (rule Cons.IH)
  next
    case False
    with Cons.prems(4) g1 obtain g2 where g2: "Game_update fp g1 = Inr g2"
      "run fp inps (Physics_step (outcome inp) g2) = Inr g'"
      by (auto simp add: frame_def bind_err_Inr_iff)
    from Game_update_inv [OF inv1, of fp] g2(1) have inv2: "game_inv g2"
      "merge_pairs (physics g2) = []" by auto
    from inv1 reg1 g2(1) have reg2: "all_registered g2" by (rule all_registered_Game_update)
    from Cons.prems(3) g1 False g2(1)
    have calm: "space_bodies (physics (evict_nonfinite g2)) = space_bodies (physics g2)"
      "no_eviction fp inps (Physics_step (outcome inp) g2)"
      by simp_all
    have step: "Physics_step (outcome inp) g2 = space_step (outcome inp) g2"
      by (simp add: Physics_step_def evict_nonfinite_none [OF calm(1)])
    have "game_inv (Physics_step (outcome inp) g2)" using inv2 by (rule Physics_step_inv)
    moreover have "all_registered (Physics_step (outcome inp) g2)"
      unfolding step using reg2 by (rule all_registered_space_step)
    ultimately show ?thesis using calm(2) g2(2) by (rule Cons.IH)
  qed
qed

lemmas more_run_defs = hold_left_def left_state_def far_out_def far_out_run_def far_out_state_def

lemma hold_left_result:
  "run exact_fp (replicate 60 hold_left) (Game_init blank_game) = Inr left_state"
  by (simp add: eval_defs more_run_defs eval_nat_numeral)

lemma cooldown_run_overflow_fp:
  "run overflow_fp cooldown_run (Game_init blank_game) = Inr (spawned_state (Fin 300, Fin 700))"
  by (simp add: eval_defs eval_nat_numeral)

lemma far_out_frame:
  "frame overflow_fp (release_frame (far_out [(0, 1)])) (spawned_state (Fin 300, Fin 700))
     = Inr far_out_state"
  by (simp add: eval_defs more_run_defs)

lemma far_out_fused:
  "\<exists>g. frame overflow_fp (idle_frame (far [])) far_out_state = Inr g \<and>
     watermelons g = [2] \<and> state (heap g 2) = MOVING \<and> level (heap g 2) = 2 \<and>
     position (body (heap g 2)) = (PInf, Fin 700) \<and> space_bodies (physics g) = []"
  by (simp add: eval_defs more_run_defs eval_nat_numeral)

subsection \<open>Runs that stay clear of the scan, and one that does not\<close>

lemma no_eviction_append:
  "no_eviction fp (xs @ ys) g \<longleftrightarrow>
     no_eviction fp xs g \<and> (case run fp xs g of Inl e \<Rightarrow> True | Inr g' \<Rightarrow> no_eviction fp ys g')"
  by (induction xs arbitrary: g)
    (auto simp add: frame_def bind_err_def split: sum.splits)

lemma no_eviction_cooldown_run: "no_eviction exact_fp cooldown_run (Game_init blank_game)"
  by (simp add: eval_defs eval_nat_numeral)

lemma no_eviction_contact_run: "no_eviction exact_fp contact_run (Game_init blank_game)"
proof -
  have "no_eviction exact_fp [release_frame (side_by_side [(0, 1)])] (spawned_state (Fin 300, Fin 700))"
    by (simp add: eval_defs)
  then show ?thesis
    by (simp add: contact_run_def [of] no_eviction_append no_eviction_cooldown_run
        cooldown_run_result)
qed

lemma eviction_far_out_run: "\<not> no_eviction overflow_fp far_out_run (Game_init blank_game)"
proof -
  have "\<not> no_eviction overflow_fp [idle_frame (far [])] far_out_state"
    by (simp add: eval_defs more_run_defs eval_nat_numeral)
  moreover have "run overflow_fp (cooldown_run @ [release_frame (far_out [(0, 1)])])
       (Game_init blank_game) = Inr far_out_state"
    using far_out_frame by (simp add: run_append cooldown_run_overflow_fp)
  ultimately show ?thesis
    using no_eviction_append [of overflow_fp "cooldown_run @ [release_frame (far_out [(0, 1)])]"
        "[idle_frame (far [])]" "Game_init blank_game"]
    by (simp add: far_out_run_def [of])
qed

lemma overflow_leaves_piece_without_body:
  "\<exists>g. run overflow_fp far_out_run (Game_init blank_game) = Inr g \<and>
     watermelons g = [2] \<and> state (heap g 2) = MOVING \<and> level (heap g 2) = 2 \<and>
     position (body (heap g 2)) = (PInf, Fin 700) \<and> space_bodies (physics g) = []"
proof -
  have "run overflow_fp (cooldown_run @ [release_frame (far_out [(0, 1)])])
       (Game_init blank_game) = Inr far_out_state"
    using far_out_frame by (simp add: run_append cooldown_run_overflow_fp)
  then have "run overflow_fp far_out_run (Game_init blank_game)
      = frame overflow_fp (idle_frame (far [])) far_out_state"
    using run_append [of overflow_fp "cooldown_run @ [release_frame (far_out [(0, 1)])]"
        "[idle_frame (far [])]" "Game_init blank_game"]
    by (simp add: far_out_run_def [of] bind_err_def split: sum.splits)
  with far_out_fused show ?thesis by simp
qed

section \<open>The claims\<close>



text \<open>
  C2. Whenever, in a run, \<^verbatim>\<open>_release_wm\<close> is called while the tracked piece is Waiting and
  \<^verbatim>\<open>_check_collision\<close> holds for some other live piece and the tracked one (the float
  \<^verbatim>\<open>math.hypot\<close> of the differences of the centres is below the float \<^verbatim>\<open>(r1 + r2) * 0.9\<close>),
  the call sets the game-over flag and changes nothing else: the piece stays Waiting and
  kinematic, no body is added to the space, cooldown and \<open>can_spawn\<close> keep their values.
\<close>

theorem release_on_overlap_is_game_over:
  assumes "run fp inps (Game_init g0) = Inr g" and "handle_events fp es g = Inr g1"
    and "state (heap g1 (waiting_wm g1)) = WAITING"
    and "i \<in> set (watermelons g1)" and "i \<noteq> waiting_wm g1"
    and "check_collision fp (heap g1 i) (heap g1 (waiting_wm g1))"
  shows "release_wm fp g1 = Inr (g1\<lparr>game_over := True\<rparr>)"
proof -
  from assms(1) have "game_inv g" by (rule run_Game_init_inv)
  then have inv: "game_inv g1" using assms(2) by (rule handle_events_inv_Inr)
  with assms(3) have "can_spawn g1" by (simp add: game_inv_def inv_waiting_def)
  moreover from assms(4-6) have "release_collision fp (watermelons g1) g1"
    by (auto simp add: release_collision_iff)
  ultimately show ?thesis using assms(3) by (simp add: release_wm_def)
qed

theorem release_on_overlap_is_game_over_witness:
  "run exact_fp near_run (Game_init blank_game) = Inr (spawned_state (Fin 300, Fin 100)) \<and>
   handle_events exact_fp [] (spawned_state (Fin 300, Fin 100))
     = Inr (spawned_state (Fin 300, Fin 100)) \<and>
   state (heap (spawned_state (Fin 300, Fin 100)) (waiting_wm (spawned_state (Fin 300, Fin 100))))
     = WAITING \<and>
   0 \<in> set (watermelons (spawned_state (Fin 300, Fin 100))) \<and>
   0 \<noteq> waiting_wm (spawned_state (Fin 300, Fin 100)) \<and>
   check_collision exact_fp (heap (spawned_state (Fin 300, Fin 100)) 0)
     (heap (spawned_state (Fin 300, Fin 100)) (waiting_wm (spawned_state (Fin 300, Fin 100)))) \<and>
   release_wm exact_fp (spawned_state (Fin 300, Fin 100))
     = Inr ((spawned_state (Fin 300, Fin 100))\<lparr>game_over := True\<rparr>)"
proof -
  let ?g = "spawned_state (Fin 300, Fin 100)"
  have a: "handle_events exact_fp [] ?g = Inr ?g" by simp
  have b: "state (heap ?g (waiting_wm ?g)) = WAITING"
    by (simp add: spawned_state_def waiting_piece_def)
  have c: "0 \<in> set (watermelons ?g)" "0 \<noteq> waiting_wm ?g"
    by (simp_all add: spawned_state_def)
  have d: "check_collision exact_fp (heap ?g 0) (heap ?g (waiting_wm ?g))"
    by (simp add: spawned_state_def waiting_piece_def dropped_def check_collision_def
        exact_fp_def sqrt_less_iff_sq)
  from release_on_overlap_is_game_over [OF near_run_result a b c d] near_run_result a b c d
  show ?thesis by blast
qed

text \<open>
  C3 (the score is the highest level carried by a piece that a merge created, and never
  exceeds 10) fails on the code when two pieces of the top level merge: the piece created
  has level 10, and the score becomes 11. Here \<^verbatim>\<open>_update\<close> runs on a state with two level-10 pieces
  in contact and the score at 10.
\<close>

theorem top_level_merge_scores_eleven:
  "level (heap two_tens 0) = 10 \<and> level (heap two_tens 1) = 10 \<and> score two_tens = 10 \<and>
   merge_pairs (physics two_tens) = [(0, 1)] \<and>
   (\<exists>g'. Game_update exact_fp two_tens = Inr g' \<and> watermelons g' = [2] \<and>
      level (heap g' 2) = 10 \<and> score g' = 11)"
  by (simp add: eval_defs more_example_defs eval_nat_numeral)

text \<open>
  C4, as amended. At every frame boundary of a run, every body registered in the space is
  that of a live piece that is not Waiting, and is registered once: a Waiting piece has no
  body there, a piece that is no longer live has none. And as long as the scan of
  \<^verbatim>\<open>Physics.step\<close> for non-finite positions has removed no body, every live piece that is not
  Waiting has exactly one registered body, so the registered bodies are exactly those of the
  live pieces that are not Waiting; the same then holds between any two merges of the next
  frame's merge processing.
\<close>

theorem registered_iff_live_and_released:
  assumes "run fp inps (Game_init g0) = Inr g"
  shows "count_list (space_bodies (physics g)) i \<le> 1 \<and>
         (i \<in> set (space_bodies (physics g)) \<longrightarrow>
            i \<in> set (watermelons g) \<and> state (heap g i) \<noteq> WAITING) \<and>
         (no_eviction fp inps (Game_init g0) \<longrightarrow>
            count_list (space_bodies (physics g)) i
              = (if i \<in> set (watermelons g) \<and> state (heap g i) \<noteq> WAITING then 1 else 0) \<and>
            (handle_input fp inp g = Inr g1 \<and>
             merge_pairs (physics (update_pieces (update_spawn fp g1))) = ps @ qs \<and>
             process_merges_loop fp ps (update_pieces (update_spawn fp g1)) = Inr g3 \<longrightarrow>
               count_list (space_bodies (physics g3)) i
                 = (if i \<in> set (watermelons g3) \<and> state (heap g3 i) \<noteq> WAITING then 1 else 0)))"
proof -
  from assms have inv: "game_inv g" by (rule run_Game_init_inv)
  then have d: "distinct (space_bodies (physics g))"
    and sub: "set (space_bodies (physics g))
                \<subseteq> set (filter (\<lambda>i. state (heap g i) \<noteq> WAITING) (watermelons g))"
    by (simp_all add: game_inv_def inv_registry_def)
  from d have once: "count_list (space_bodies (physics g)) i \<le> 1"
    by (simp add: count_list_distinct)
  from sub have owner: "i \<in> set (space_bodies (physics g)) \<longrightarrow>
            i \<in> set (watermelons g) \<and> state (heap g i) \<noteq> WAITING"
    by auto
  have cnt: "count_list (space_bodies (physics s)) i
           = (if i \<in> set (watermelons s) \<and> state (heap s i) \<noteq> WAITING then 1 else 0)"
    if "game_inv s" and "all_registered s" for s
  proof -
    from that have "distinct (space_bodies (physics s))"
      and "set (space_bodies (physics s))
             = set (filter (\<lambda>i. state (heap s i) \<noteq> WAITING) (watermelons s))"
      by (auto simp add: game_inv_def inv_registry_def all_registered_def)
    then show ?thesis by (simp add: count_list_distinct)
  qed
  {
    assume calm: "no_eviction fp inps (Game_init g0)"
    have reg: "all_registered g"
      using Game_init_inv all_registered_Game_init calm assms by (rule all_registered_run)
    {
      assume h: "handle_input fp inp g = Inr g1"
        and p: "merge_pairs (physics (update_pieces (update_spawn fp g1))) = ps @ qs"
        and l: "process_merges_loop fp ps (update_pieces (update_spawn fp g1)) = Inr g3"
      from inv h have inv1: "game_inv g1" by (rule handle_input_inv_Inr)
      from inv reg h have reg1: "all_registered g1" by (rule all_registered_handle_input)
      from inv1 have inv2: "game_inv (update_pieces (update_spawn fp g1))"
        by (rule pre_merge_inv)
      from inv1 reg1 have reg2: "all_registered (update_pieces (update_spawn fp g1))"
        by (simp add: all_registered_update_spawn all_registered_update_pieces)
      from process_merges_loop_prefix [OF inv2 p, of fp] l reg2
      have "game_inv g3" "all_registered g3" by auto
      then have "count_list (space_bodies (physics g3)) i
              = (if i \<in> set (watermelons g3) \<and> state (heap g3 i) \<noteq> WAITING then 1 else 0)"
        by (rule cnt)
    }
    with cnt [OF inv reg]
    have "count_list (space_bodies (physics g)) i
              = (if i \<in> set (watermelons g) \<and> state (heap g i) \<noteq> WAITING then 1 else 0) \<and>
            (handle_input fp inp g = Inr g1 \<and>
             merge_pairs (physics (update_pieces (update_spawn fp g1))) = ps @ qs \<and>
             process_merges_loop fp ps (update_pieces (update_spawn fp g1)) = Inr g3 \<longrightarrow>
               count_list (space_bodies (physics g3)) i
                 = (if i \<in> set (watermelons g3) \<and> state (heap g3 i) \<noteq> WAITING then 1 else 0))"
      by blast
  }
  with once owner show ?thesis by blast
qed

theorem registered_iff_live_and_released_witness:
  "run exact_fp contact_run (Game_init blank_game) = Inr contact_state \<and>
   no_eviction exact_fp contact_run (Game_init blank_game) \<and>
   handle_input exact_fp (idle_frame (far [])) contact_state = Inr contact_state \<and>
   merge_pairs (physics (update_pieces (update_spawn exact_fp contact_state))) = [(0, 1)] @ [] \<and>
   process_merges_loop exact_fp [(0, 1)] (update_pieces (update_spawn exact_fp contact_state))
     = Inr fused_state \<and>
   0 \<in> set (space_bodies (physics contact_state)) \<and>
   0 \<in> set (watermelons contact_state) \<and> state (heap contact_state 0) \<noteq> WAITING \<and>
   count_list (space_bodies (physics contact_state)) 0 = 1 \<and>
   count_list (space_bodies (physics fused_state)) 0 = 0 \<and>
   count_list (space_bodies (physics fused_state)) 2 = 1"
proof -
  have h: "handle_input exact_fp (idle_frame (far [])) contact_state = Inr contact_state"
    by (simp add: eval_defs)
  have p: "merge_pairs (physics (update_pieces (update_spawn exact_fp contact_state)))
      = [(0, 1)] @ []"
    by (simp add: eval_defs)
  have l: "process_merges_loop exact_fp [(0, 1)]
      (update_pieces (update_spawn exact_fp contact_state)) = Inr fused_state"
    by (simp add: eval_defs more_example_defs eval_nat_numeral)
  have s: "0 \<in> set (space_bodies (physics contact_state))"
    by (simp add: contact_state_def)
  from registered_iff_live_and_released [OF contact_run_result, where i = 0
      and inp = "idle_frame (far [])" and ?g1.0 = contact_state and ps = "[(0, 1)]"
      and qs = "[]" and ?g3.0 = fused_state]
    registered_iff_live_and_released [OF contact_run_result, where i = 2
      and inp = "idle_frame (far [])" and ?g1.0 = contact_state and ps = "[(0, 1)]"
      and qs = "[]" and ?g3.0 = fused_state]
    contact_run_result no_eviction_contact_run h p l s
  show ?thesis
    by (simp add: contact_state_def fused_state_def dropped_def Physics_init_def eval_nat_numeral)
qed

text \<open>
  C4 as stated fails for the Waiting piece: at the first frame boundary the piece created
  by \<^verbatim>\<open>__init__\<close> is in the live collection and no body of it is registered in the space.
\<close>

theorem waiting_piece_unregistered_counterexample:
  "run exact_fp [] (Game_init blank_game) = Inr (Game_init blank_game) \<and>
   0 \<in> set (watermelons (Game_init blank_game)) \<and>
   count_list (space_bodies (physics (Game_init blank_game))) 0 = 0"
  by (simp add: eval_defs)

text \<open>
  C5. A piece whose merge flag is set is not selected by the collision callback: the
  callback then leaves the state, and so the list of pending pairs, as it is. And the flag
  of an existing piece, once set, is still set after any run of frames. So no piece is
  selected into a second pair.
\<close>

theorem merged_flag_is_final:
  assumes "merged (heap g i)"
  shows "collision_handler (i, j) g = g \<and> collision_handler (j, i) g = g \<and>
         (i < next_id g \<and> run fp inps g = Inr g' \<longrightarrow> merged (heap g' i))"
proof -
  have "i < next_id g \<and> run fp inps g = Inr g' \<longrightarrow> merged (heap g' i)"
    using assms flags_kept_run [of fp inps g g'] by (auto simp add: flags_kept_def)
  with assms show ?thesis by (simp add: collision_handler_def)
qed

theorem merged_flag_is_final_witness:
  "merged (heap contact_state 0) \<and> 0 < next_id contact_state \<and>
   run exact_fp [idle_frame (far [])] contact_state = Inr fused_state \<and>
   collision_handler (0, 1) contact_state = contact_state \<and>
   collision_handler (1, 0) contact_state = contact_state \<and>
   merged (heap fused_state 0)"
proof -
  have m: "merged (heap contact_state 0)"
    by (simp add: contact_state_def dropped_def)
  have r: "run exact_fp [idle_frame (far [])] contact_state = Inr fused_state"
    by (simp add: fused_result)
  have n: "0 < next_id contact_state" by (simp add: contact_state_def)
  from merged_flag_is_final [OF m, where j = 1 and fp = exact_fp
      and inps = "[idle_frame (far [])]" and g' = fused_state] m r n
  show ?thesis by simp
qed

text \<open>
  C6. At every frame boundary of a run, and inside the next frame after the input has been
  handled and after the cooldown-and-spawn block has run, at most one piece of the live
  collection is Waiting. The spawn block adds a piece only when the tracked piece is no
  longer Waiting and no live piece is.
\<close>

theorem at_most_one_waiting:
  assumes "run fp inps (Game_init g0) = Inr g"
  shows "length (filter (\<lambda>i. state (heap g i) = WAITING) (watermelons g)) \<le> 1 \<and>
         (handle_input fp inp g = Inr g1 \<longrightarrow>
            length (filter (\<lambda>i. state (heap g1 i) = WAITING) (watermelons g1)) \<le> 1 \<and>
            length (filter (\<lambda>i. state (heap (update_spawn fp g1) i) = WAITING)
                      (watermelons (update_spawn fp g1))) \<le> 1 \<and>
            (watermelons (update_spawn fp g1) \<noteq> watermelons g1 \<longrightarrow>
               state (heap g1 (waiting_wm g1)) \<noteq> WAITING \<and>
               filter (\<lambda>i. state (heap g1 i) = WAITING) (watermelons g1) = []))"
proof -
  from assms have inv: "game_inv g" by (rule run_Game_init_inv)
  have le: "length (filter (\<lambda>i. state (heap s i) = WAITING) (watermelons s)) \<le> 1"
    if "game_inv s" for s
    using that waiting_filter_le_1 [of s] by (simp add: game_inv_def)
  {
    assume h: "handle_input fp inp g = Inr g1"
    with inv have inv1: "game_inv g1" by (rule handle_input_inv_Inr)
    then have inv2: "game_inv (update_spawn fp g1)" by (rule update_spawn_inv)
    {
      assume "watermelons (update_spawn fp g1) \<noteq> watermelons g1"
      then have blocked: "\<not> can_spawn g1"
        by (auto simp add: update_spawn_def)
      from no_waiting_when_blocked [OF inv1 blocked]
      have none: "filter (\<lambda>i. state (heap g1 i) = WAITING) (watermelons g1) = []"
        by (simp add: filter_empty_conv)
      from inv1 blocked have "state (heap g1 (waiting_wm g1)) \<noteq> WAITING"
        by (auto simp add: game_inv_def inv_waiting_def)
      note this none
    }
    with le [OF inv1] le [OF inv2]
    have "length (filter (\<lambda>i. state (heap g1 i) = WAITING) (watermelons g1)) \<le> 1 \<and>
            length (filter (\<lambda>i. state (heap (update_spawn fp g1) i) = WAITING)
                      (watermelons (update_spawn fp g1))) \<le> 1 \<and>
            (watermelons (update_spawn fp g1) \<noteq> watermelons g1 \<longrightarrow>
               state (heap g1 (waiting_wm g1)) \<noteq> WAITING \<and>
               filter (\<lambda>i. state (heap g1 i) = WAITING) (watermelons g1) = [])"
      by blast
  }
  with le [OF inv] show ?thesis by blast
qed

theorem at_most_one_waiting_witness:
  "run exact_fp falling_run (Game_init blank_game) = Inr falling_state \<and>
   handle_input exact_fp (idle_frame (far [])) falling_state = Inr falling_state \<and>
   watermelons (update_spawn exact_fp falling_state) \<noteq> watermelons falling_state \<and>
   length (filter (\<lambda>i. state (heap (update_spawn exact_fp falling_state) i) = WAITING)
             (watermelons (update_spawn exact_fp falling_state))) \<le> 1 \<and>
   state (heap falling_state (waiting_wm falling_state)) \<noteq> WAITING \<and>
   filter (\<lambda>i. state (heap falling_state i) = WAITING) (watermelons falling_state) = []"
proof -
  have h: "handle_input exact_fp (idle_frame (far [])) falling_state = Inr falling_state"
    by (simp add: eval_defs more_example_defs)
  have w: "watermelons (update_spawn exact_fp falling_state) \<noteq> watermelons falling_state"
    by (simp add: eval_defs more_example_defs)
  from at_most_one_waiting [OF falling_run_result, where inp = "idle_frame (far [])"
      and ?g1.0 = falling_state]
    falling_run_result h w
  show ?thesis by blast
qed

text \<open>
  C7. Once the game-over flag is set, frames in which the restart key R does not go down
  leave the whole game state as it is: no piece is spawned, no merge is processed, the
  engine is not stepped and the score does not change. (A QUIT event ends the program.)
\<close>

theorem game_over_freezes:
  assumes "game_over g" and "\<forall>inp \<in> set inps. KEYDOWN K_r \<notin> set (events inp)"
  shows "run fp inps g
           = (if \<exists>inp \<in> set inps. QUIT \<in> set (events inp) then Inl SystemExit else Inr g)"
  using assms
proof (induction inps)
  case Nil
  then show ?case by simp
next
  case (Cons inp inps)
  then have "frame fp inp g = (if QUIT \<in> set (events inp) then Inl SystemExit else Inr g)"
    by (simp add: frame_game_over)
  with Cons show ?case by simp
qed

theorem game_over_freezes_witness:
  "game_over ((spawned_state (Fin 300, Fin 100))\<lparr>game_over := True\<rparr>) \<and>
   KEYDOWN K_r \<notin> set (events (release_frame (far []))) \<and>
   KEYDOWN K_r \<notin> set (events (idle_frame (near [(0, 1)]))) \<and>
   run exact_fp [release_frame (far []), idle_frame (near [(0, 1)])]
       ((spawned_state (Fin 300, Fin 100))\<lparr>game_over := True\<rparr>)
     = Inr ((spawned_state (Fin 300, Fin 100))\<lparr>game_over := True\<rparr>)"
  using game_over_freezes [where g = "(spawned_state (Fin 300, Fin 100))\<lparr>game_over := True\<rparr>"
      and inps = "[release_frame (far []), idle_frame (near [(0, 1)])]" and fp = exact_fp]
  by (simp add: release_frame_def idle_frame_def)

text \<open>
  C8. In every frame of a run in which \<^verbatim>\<open>_update\<close> is called, it returns with the list of
  pending merge pairs empty. And the pairs pending at a frame boundary name live pieces
  only.
\<close>

theorem pending_pairs_drained:
  assumes "run fp inps (Game_init g0) = Inr g"
  shows "set (pair_ids (merge_pairs (physics g))) \<subseteq> set (watermelons g) \<and>
         (handle_input fp inp g = Inr g1 \<longrightarrow>
            (\<exists>g2. Game_update fp g1 = Inr g2 \<and> merge_pairs (physics g2) = []))"
proof -
  from assms have inv: "game_inv g" by (rule run_Game_init_inv)
  then have "set (pair_ids (merge_pairs (physics g))) \<subseteq> set (space_bodies (physics g))"
    and "set (space_bodies (physics g)) \<subseteq> set (watermelons g)"
    by (auto simp add: game_inv_def inv_pairs_def inv_registry_def)
  then have live: "set (pair_ids (merge_pairs (physics g))) \<subseteq> set (watermelons g)"
    by blast
  {
    assume "handle_input fp inp g = Inr g1"
    with inv have "game_inv g1" by (rule handle_input_inv_Inr)
    from Game_update_inv [OF this, of fp]
    have "\<exists>g2. Game_update fp g1 = Inr g2 \<and> merge_pairs (physics g2) = []" by blast
  }
  with live show ?thesis by blast
qed

theorem pending_pairs_drained_witness:
  "run exact_fp contact_run (Game_init blank_game) = Inr contact_state \<and>
   handle_input exact_fp (idle_frame (far [])) contact_state = Inr contact_state \<and>
   merge_pairs (physics contact_state) = [(0, 1)] \<and>
   set (pair_ids (merge_pairs (physics contact_state))) \<subseteq> set (watermelons contact_state) \<and>
   (\<exists>g2. Game_update exact_fp contact_state = Inr g2 \<and> merge_pairs (physics g2) = [])"
proof -
  have h: "handle_input exact_fp (idle_frame (far [])) contact_state = Inr contact_state"
    by (simp add: eval_defs)
  have p: "merge_pairs (physics contact_state) = [(0, 1)]"
    by (simp add: contact_state_def Physics_init_def)
  from pending_pairs_drained [OF contact_run_result, where inp = "idle_frame (far [])"
      and ?g1.0 = contact_state]
    contact_run_result h p
  show ?thesis by blast
qed

text \<open>
  C9 (for a Waiting piece \<^verbatim>\<open>update\<close> clamps the horizontal position so that the piece's circle
  lies fully inside the arena walls) fails on the code: the clamp is to
  \<open>[radius, WIDTH - radius]\<close>, measured from the centre lines \<open>x = 0\<close> and \<open>x = WIDTH\<close> of the
  side walls, and leaves out their thickness. For every Waiting piece at a finite position
  \<^verbatim>\<open>update\<close> puts the piece at the spawn height and at the clamped \<open>x\<close>; the circle is inside
  the walls after the clamp only if it was before; and a piece at or left of \<open>x = radius\<close>
  ends at \<open>x = radius\<close>, its circle reaching \<open>x = 0\<close>, inside the left wall.
\<close>

theorem waiting_clamp_ignores_wall_thickness:
  assumes "state wm = WAITING" and "position (body wm) = (Fin x, Fin y)"
  shows "position (body (Watermelon_update wm))
           = (Fin (max (real_of_int (radius wm)) (min x (real_of_int (WIDTH - radius wm)))),
              Fin 50) \<and>
         (inside_walls (max (real_of_int (radius wm)) (min x (real_of_int (WIDTH - radius wm))))
            (radius wm) \<longleftrightarrow> inside_walls x (radius wm)) \<and>
         (x \<le> real_of_int (radius wm) \<longrightarrow>
            position (body (Watermelon_update wm)) = (Fin (real_of_int (radius wm)), Fin 50) \<and>
            \<not> inside_walls (real_of_int (radius wm)) (radius wm))"
  using assms
  by (auto simp add: Watermelon_update_def Let_def set_position_def of_py_int_def py_max_def
      py_min_def inside_walls_def create_borders_def WIDTH_def BORDER_THICKNESS_def
      max_def min_def)

theorem waiting_clamp_ignores_wall_thickness_witness:
  "run exact_fp (replicate 60 hold_left) (Game_init blank_game) = Inr left_state \<and>
   handle_input exact_fp hold_left left_state
     = Inr (left_state\<lparr>heap := (heap left_state)
                                  (0 := set_position (Fin 40, Fin 50) waiting_piece)\<rparr>) \<and>
   state (set_position (Fin 40, Fin 50) waiting_piece) = WAITING \<and>
   position (body (set_position (Fin 40, Fin 50) waiting_piece)) = (Fin 40, Fin 50) \<and>
   radius (set_position (Fin 40, Fin 50) waiting_piece) = 45 \<and>
   position (body (Watermelon_update (set_position (Fin 40, Fin 50) waiting_piece)))
     = (Fin 45, Fin 50) \<and>
   \<not> inside_walls 45 45 \<and>
   \<lparr>seg_a = (0, 0), seg_b = (0, 800), seg_radius = 10\<rparr> \<in> set (borders (physics left_state))"
proof -
  have h: "handle_input exact_fp hold_left left_state
     = Inr (left_state\<lparr>heap := (heap left_state)
                                  (0 := set_position (Fin 40, Fin 50) waiting_piece)\<rparr>)"
    by (simp add: eval_defs more_run_defs)
  have s: "state (set_position (Fin 40, Fin 50) waiting_piece) = WAITING"
    and p: "position (body (set_position (Fin 40, Fin 50) waiting_piece)) = (Fin 40, Fin 50)"
    and r: "radius (set_position (Fin 40, Fin 50) waiting_piece) = 45"
    by (simp_all add: set_position_def waiting_piece_def)
  have w: "\<lparr>seg_a = (0, 0), seg_b = (0, 800), seg_radius = 10\<rparr>
      \<in> set (borders (physics left_state))"
    by (simp add: left_state_def Physics_init_def create_borders_def const_defs
        BORDER_THICKNESS_def)
  from waiting_clamp_ignores_wall_thickness [OF s p] hold_left_result h s p r w
  show ?thesis by (simp add: inside_walls_def create_borders_def BORDER_THICKNESS_def WIDTH_def)
qed

text \<open>
  C10. For every level \<open>L\<close> from 1 to 10, a piece created at level \<open>L\<close> has radius
  \<open>45 + (L - 1) * 8\<close>, and a piece created at a higher level (up to 10) has a strictly
  larger radius. The radius is a function of the level alone.
\<close>

theorem radius_of_level:
  assumes "1 \<le> L" and "L \<le> MAX_LEVEL"
  shows "radius (Watermelon_init pos L st) = 45 + (L - 1) * 8 \<and>
         (L < L' \<and> L' \<le> MAX_LEVEL \<longrightarrow>
            radius (Watermelon_init pos L st) < radius (Watermelon_init pos' L' st'))"
  using assms by (simp add: Watermelon_init_def calculate_radius_def MAX_LEVEL_def Let_def)

theorem radius_of_level_witness:
  "(1::int) \<le> 3 \<and> (3::int) \<le> MAX_LEVEL \<and> (3::int) < 4 \<and> (4::int) \<le> MAX_LEVEL \<and>
   radius (Watermelon_init (Fin 300, Fin 50) 3 WAITING) = 61 \<and>
   radius (Watermelon_init (Fin 300, Fin 50) 3 WAITING)
     < radius (Watermelon_init (Fin 0, Fin 0) 4 MOVING)"
  using radius_of_level [where L = 3 and L' = 4 and pos = "(Fin 300, Fin 50)" and st = WAITING
      and pos' = "(Fin 0, Fin 0)" and st' = MOVING]
  by (simp add: MAX_LEVEL_def)

end
